theory Spec2Isabelle
  imports Main "HOL-Library.Log_Nat"
begin

text \<open>
  A shallow embedding of \<^verbatim>\<open>scrollify_core.py\<close>: the class
  \<^verbatim>\<open>ScrollifyGenerator\<close> turns one tall picture into the frames of a scrolling
  animation. Each method is a function on the generator state; an exception is an
  \<open>Inl\<close> result; a loop that may run forever returns an option. The first half
  of the theory is the model, the second half the properties.
\<close>

section \<open>Python values used by the program\<close>

text \<open>
  Exceptions of the pipeline. \<open>NoFrames\<close> is the \<^verbatim>\<open>ValueError\<close> that
  \<^verbatim>\<open>save_output\<close> raises on an empty frame list, \<open>UnsupportedFormat\<close> the
  \<^verbatim>\<open>ValueError\<close> it raises on an unknown format (it carries the configured format);
  \<open>ResizeError\<close> is the \<^verbatim>\<open>ValueError\<close> of \<^verbatim>\<open>Image.resize\<close> on a size below 1,
  \<open>CropError\<close> the \<^verbatim>\<open>ValueError\<close> of \<^verbatim>\<open>Image.crop\<close> on a box whose right edge
  is left of its left edge or whose lower edge is above its upper edge.
\<close>

datatype error =
    FileNotFoundError
  | AttributeError
  | TypeError
  | IndexError
  | ZeroDivisionError
  | OverflowError
  | ResizeError
  | CropError
  | NoFrames
  | UnsupportedFormat string

subsection \<open>Floats\<close>

text \<open>
  A finite Python float (IEEE binary64) is represented by the rational it denotes.
  \<open>fl\<close> rounds a rational to the nearest binary64 value, ties to even, with the
  fixed spacing \<open>2^-1074\<close> below \<open>2^-1022\<close>; \<open>to_double\<close> raises OverflowError
  where the rounded value leaves the binary64 range. Infinities and NaN are not values of
  the model: the float inputs (\<^verbatim>\<open>pause_duration\<close>, \<^verbatim>\<open>quality_factor\<close>) are
  finite, and every float product of this program is consumed by \<^verbatim>\<open>int()\<close>, which
  raises OverflowError on an infinity, so an overflowing product is reported as
  OverflowError at the product.
\<close>

definition pow2 :: "int \<Rightarrow> rat" where
  "pow2 k = (if 0 \<le> k then 2 ^ nat k else 1 / 2 ^ nat (- k))"

definition ilog2 :: "rat \<Rightarrow> int" where
  \<comment> \<open>for \<open>x > 0\<close>: the \<open>e\<close> with \<open>2^e \<le> x < 2^(e+1)\<close>\<close>
  "ilog2 x = (if 1 \<le> x then bitlen \<lfloor>x\<rfloor> - 1 else - bitlen (\<lceil>1 / x\<rceil> - 1))"

definition round_half_even :: "rat \<Rightarrow> int" where
  "round_half_even r =
     (let f = \<lfloor>r\<rfloor>; d = r - of_int f
      in if d < 1 / 2 then f
         else if 1 / 2 < d then f + 1
         else if even f then f else f + 1)"

definition fl :: "rat \<Rightarrow> rat" where
  "fl x =
     (if x = 0 then 0
      else let e = max (ilog2 \<bar>x\<bar>) (- 1022); u = pow2 (e - 52)
           in sgn x * of_int (round_half_even (\<bar>x\<bar> / u)) * u)"

definition to_double :: "rat \<Rightarrow> error + rat" where
  "to_double x = (let r = fl x in if pow2 1024 \<le> \<bar>r\<bar> then Inl OverflowError else Inr r)"

text \<open>\<^verbatim>\<open>a / b\<close> on two ints: the correctly rounded quotient.\<close>

definition py_truediv :: "int \<Rightarrow> int \<Rightarrow> error + rat" where
  "py_truediv a b = (if b = 0 then Inl ZeroDivisionError else to_double (of_int a / of_int b))"

text \<open>\<^verbatim>\<open>x * y\<close> on two floats, and \<^verbatim>\<open>a * y\<close> on an int and a float (the int is
  converted first).\<close>

definition py_fmul :: "rat \<Rightarrow> rat \<Rightarrow> error + rat" where
  "py_fmul x y = to_double (x * y)"

definition py_imul :: "int \<Rightarrow> rat \<Rightarrow> error + rat" where
  "py_imul a y = (case to_double (of_int a) of Inl e \<Rightarrow> Inl e | Inr x \<Rightarrow> py_fmul x y)"

text \<open>\<^verbatim>\<open>int(x)\<close> on a float truncates toward zero.\<close>

definition py_int_of_float :: "rat \<Rightarrow> int" where
  "py_int_of_float x = (if 0 \<le> x then \<lfloor>x\<rfloor> else \<lceil>x\<rceil>)"

text \<open>\<^verbatim>\<open>int(a / b)\<close> on two ints.\<close>

definition py_int_truediv :: "int \<Rightarrow> int \<Rightarrow> error + int" where
  "py_int_truediv a b =
     (case py_truediv a b of Inl e \<Rightarrow> Inl e | Inr q \<Rightarrow> Inr (py_int_of_float q))"

subsection \<open>Lists\<close>

text \<open>\<^verbatim>\<open>xs[:stop]\<close>: a negative \<open>stop\<close> counts from the end, and \<open>-0\<close> is \<open>0\<close>.\<close>

definition py_slice_to :: "'a list \<Rightarrow> int \<Rightarrow> 'a list" where
  "py_slice_to xs stop =
     (if stop < 0 then take (nat (int (length xs) + stop)) xs else take (nat stop) xs)"

section \<open>Configuration, images and frames\<close>

record config =
  source_image :: string
  aspect_ratio :: string
  output_width :: int
  output_height :: "int option"
  scroll_speed :: int
  framerate :: int
  scroll_mode :: string
  pause_duration :: rat
  output_format :: string
  output_path :: string
  quality_factor :: rat
  add_watermark :: bool
  watermark_text :: string

text \<open>
  Pixel contents are not modelled. An image is its size; a frame is the crop request
  that \<^verbatim>\<open>_crop_safe\<close> serves: the box \<open>(0, box_top, box_width, box_bottom)\<close> of the
  scaled image on a canvas of \<open>canvas_height\<close> rows (white below the box when the box is
  shorter), and the watermark text composited on it, if any. Two frames with equal
  descriptions have equal pixels. \<open>box_top\<close> is the scroll offset of the frame.
  \<^verbatim>\<open>Image.crop\<close> raises on a box with right < left or lower < upper, which is
  what a negative width or a negative window height produces.
\<close>

record image =
  img_width :: int
  img_height :: int

record frame =
  box_top :: int
  box_bottom :: int
  box_width :: int
  canvas_height :: int
  watermark :: "string option"

record generator =
  config :: config
  source_img :: "image option"
  scaled_image :: "image option"
  window_height :: "int option"
  frames :: "frame list"

definition crop_safe :: "image \<Rightarrow> int \<Rightarrow> int \<Rightarrow> int \<Rightarrow> error + frame" where
  "crop_safe scaled ow y_start height =
     (let y_end = min (y_start + height) (img_height scaled);
          actual_height = y_end - y_start
      in if ow < 0 \<or> y_end < y_start then Inl CropError
         else Inr \<lparr>box_top = y_start, box_bottom = y_end, box_width = ow,
                   canvas_height = (if actual_height < height then height else actual_height),
                   watermark = None\<rparr>)"

section \<open>Frame scheduler\<close>

text \<open>\<^verbatim>\<open>int(self.config.pause_duration * self.config.framerate)\<close>\<close>

definition pause_frames :: "config \<Rightarrow> error + int" where
  "pause_frames c =
     (case to_double (of_int (framerate c)) of
        Inl e \<Rightarrow> Inl e
      | Inr fr \<Rightarrow> (case py_fmul (pause_duration c) fr of
                     Inl e \<Rightarrow> Inl e
                   | Inr p \<Rightarrow> Inr (py_int_of_float p)))"

text \<open>
  The two \<^verbatim>\<open>while\<close> loops of \<^verbatim>\<open>generate_frames\<close>, on the loop state
  \<open>(y_position, frames)\<close>: \<open>scroll_down\<close> is
  \<^verbatim>\<open>while y_position < max_y\<close>, \<open>scroll_up\<close> is \<^verbatim>\<open>while y_position > 0\<close>; each
  pass moves the offset by the speed, clamps it, and appends the window cut there. With
  \<open>scroll_speed \<le> 0\<close> the descent never ends, so the loops are partial:
  \<open>None\<close> is a run that does not return. A crop that raises ends the loop with
  its error.
\<close>

partial_function (option) scroll_down ::
  "image \<Rightarrow> int \<Rightarrow> int \<Rightarrow> int \<Rightarrow> int \<Rightarrow> int \<Rightarrow> frame list
     \<Rightarrow> (error + int \<times> frame list) option"
where
  "scroll_down scaled ow wh speed max_y y_position fs =
     (if y_position < max_y
      then (case crop_safe scaled ow (min (y_position + speed) max_y) wh of
              Inl e \<Rightarrow> Some (Inl e)
            | Inr frame \<Rightarrow>
                scroll_down scaled ow wh speed max_y (min (y_position + speed) max_y)
                  (fs @ [frame]))
      else Some (Inr (y_position, fs)))"

partial_function (option) scroll_up ::
  "image \<Rightarrow> int \<Rightarrow> int \<Rightarrow> int \<Rightarrow> int \<Rightarrow> frame list
     \<Rightarrow> (error + int \<times> frame list) option"
where
  "scroll_up scaled ow wh speed y_position fs =
     (if 0 < y_position
      then (case crop_safe scaled ow (max (y_position - speed) 0) wh of
              Inl e \<Rightarrow> Some (Inl e)
            | Inr frame \<Rightarrow>
                scroll_up scaled ow wh speed (max (y_position - speed) 0) (fs @ [frame]))
      else Some (Inr (y_position, fs)))"

text \<open>
  \<^verbatim>\<open>_add_watermark_to_frames\<close> composites the watermark text on every frame, in
  place and in order; the rendering itself is not modelled.
\<close>

definition add_watermark_to_frames :: "string \<Rightarrow> frame list \<Rightarrow> frame list" where
  "add_watermark_to_frames text fs = map (\<lambda>f. f\<lparr>watermark := Some text\<rparr>) fs"

definition finish_frames :: "generator \<Rightarrow> frame list \<Rightarrow> generator" where
  \<comment> \<open>the tail of \<^verbatim>\<open>generate_frames\<close>: the optional watermark pass\<close>
  "finish_frames g fs =
     g\<lparr>frames := (if add_watermark (config g)
                   then add_watermark_to_frames (watermark_text (config g)) fs else fs)\<rparr>"

text \<open>
  \<^verbatim>\<open>generate_frames\<close>. The static branch returns before the watermark pass, as
  the source does.
\<close>

definition generate_frames :: "generator \<Rightarrow> (error + generator) option" where
  "generate_frames g =
     (case scaled_image g of
        None \<Rightarrow> Some (Inl AttributeError)
      | Some scaled \<Rightarrow>
     (case window_height g of
        None \<Rightarrow> Some (Inl TypeError)
      | Some wh \<Rightarrow>
     (let c = config g; ow = output_width c in
      if img_height scaled \<le> wh
      then (case crop_safe scaled ow 0 wh of
              Inl e \<Rightarrow> Some (Inl e)
            | Inr frame \<Rightarrow>
               (case pause_frames c of
                  Inl e \<Rightarrow> Some (Inl e)
                | Inr pf \<Rightarrow> Some (Inr (g\<lparr>frames := replicate (nat (max pf 30)) frame\<rparr>))))
      else (case pause_frames c of
              Inl e \<Rightarrow> Some (Inl e)
            | Inr pf \<Rightarrow>
           (case crop_safe scaled ow 0 wh of
              Inl e \<Rightarrow> Some (Inl e)
            | Inr top_frame \<Rightarrow>
           (let max_y = img_height scaled - wh
            in case scroll_down scaled ow wh (scroll_speed c) max_y 0
                      (replicate (nat pf) top_frame) of
                 None \<Rightarrow> None
               | Some (Inl e) \<Rightarrow> Some (Inl e)
               | Some (Inr (y_position, fs)) \<Rightarrow>
              (case crop_safe scaled ow max_y wh of
                 Inl e \<Rightarrow> Some (Inl e)
               | Inr bottom_frame \<Rightarrow>
                  (let fs' = fs @ replicate (nat pf) bottom_frame
                   in if scroll_mode c = ''down-up''
                      then (case scroll_up scaled ow wh (scroll_speed c) y_position fs' of
                              None \<Rightarrow> None
                            | Some (Inl e) \<Rightarrow> Some (Inl e)
                            | Some (Inr (y_top, fs'')) \<Rightarrow>
                                Some (Inr (finish_frames g fs'')))
                      else if scroll_mode c = ''down-once''
                      then Some (Inr (finish_frames g (py_slice_to fs' (- pf))))
                      else Some (Inr (finish_frames g fs'))))))))))"

section \<open>Strings\<close>

text \<open>
  Strings are sequences of code points below 256. \<open>py_split\<close> is
  \<^verbatim>\<open>str.split(sep)\<close> with a one-character separator; \<open>py_int\<close> is
  \<^verbatim>\<open>int(s)\<close> on a string: surrounding whitespace (code points 9 to 13, 32, 133 and
  160) is dropped, one sign is allowed,
  then decimal digits with single underscores between them; CPython 3.11 and later
  (default settings) refuse more than 4300 digits. \<open>None\<close> is the ValueError.
  \<open>py_upper\<close> is \<^verbatim>\<open>str.upper()\<close>; it is exact on ASCII, and no code point
  from 128 to 255 has an ASCII letter other than S as its upper case, so comparisons with
  \<open>''GIF''\<close> and \<open>''MP4''\<close> come out as in Python.
\<close>

fun py_split :: "char \<Rightarrow> string \<Rightarrow> string list" where
  "py_split sep [] = [[]]"
| "py_split sep (c # cs) =
     (if c = sep then [] # py_split sep cs
      else (case py_split sep cs of
              [] \<Rightarrow> [[c]]
            | w # ws \<Rightarrow> (c # w) # ws))"

definition is_space :: "char \<Rightarrow> bool" where
  "is_space c =
     (let n = (of_char c :: nat)
      in (9 \<le> n \<and> n \<le> 13) \<or> n = 32 \<or> n = 133 \<or> n = 160)"

definition is_digit :: "char \<Rightarrow> bool" where
  "is_digit c = (let n = (of_char c :: nat) in 48 \<le> n \<and> n \<le> 57)"

definition digit_val :: "char \<Rightarrow> int" where
  "digit_val c = int (of_char c) - 48"

fun digits_ok :: "string \<Rightarrow> bool" where
  "digits_ok [] = False"
| "digits_ok [c] = is_digit c"
| "digits_ok (c # d # cs) =
     (is_digit c \<and> (if d = CHR ''_'' then digits_ok cs else digits_ok (d # cs)))"

definition py_strip :: "string \<Rightarrow> string" where
  "py_strip s = rev (dropWhile is_space (rev (dropWhile is_space s)))"

definition digits_value :: "string \<Rightarrow> int" where
  "digits_value ds = foldl (\<lambda>a c. 10 * a + digit_val c) 0 (filter is_digit ds)"

definition py_int_digits :: "string \<Rightarrow> int option" where
  "py_int_digits ds =
     (if digits_ok ds \<and> length (filter is_digit ds) \<le> 4300
      then Some (digits_value ds) else None)"

definition py_int :: "string \<Rightarrow> int option" where
  "py_int s =
     (case py_strip s of
        [] \<Rightarrow> None
      | c # cs \<Rightarrow>
          if c = CHR ''-'' then map_option uminus (py_int_digits cs)
          else if c = CHR ''+'' then py_int_digits cs
          else py_int_digits (c # cs))"

definition upper_char :: "char \<Rightarrow> char" where
  "upper_char c =
     (case map_of (zip ''abcdefghijklmnopqrstuvwxyz'' ''ABCDEFGHIJKLMNOPQRSTUVWXYZ'') c of
        None \<Rightarrow> c
      | Some u \<Rightarrow> u)"

definition py_upper :: "string \<Rightarrow> string" where
  "py_upper s = map upper_char s"

text \<open>\<^verbatim>\<open>str.rfind\<close> of one character, and \<^verbatim>\<open>os.path.splitext\<close> (POSIX).\<close>

definition rfind :: "char \<Rightarrow> string \<Rightarrow> int" where
  "rfind c p =
     (if c \<in> set p
      then int (length p) - 1 - int (length (takeWhile (\<lambda>x. x \<noteq> c) (rev p)))
      else - 1)"

definition splitext :: "string \<Rightarrow> string \<times> string" where
  "splitext p =
     (let sepIndex = rfind CHR ''/'' p; dotIndex = rfind CHR ''.'' p
      in if sepIndex < dotIndex
            \<and> dropWhile (\<lambda>x. x = CHR ''.'')
                 (take (nat (dotIndex - sepIndex - 1)) (drop (nat (sepIndex + 1)) p)) \<noteq> []
         then (take (nat dotIndex) p, drop (nat dotIndex) p)
         else (p, []))"

section \<open>Geometry resolver\<close>

text \<open>The \<^verbatim>\<open>except\<close> branch: \<^verbatim>\<open>int(self.config.output_width * 9 / 16)\<close>.\<close>

definition default_height :: "int \<Rightarrow> error + int" where
  "default_height W = py_int_truediv (W * 9) 16"

text \<open>
  The \<^verbatim>\<open>try\<close> block with its bare \<^verbatim>\<open>except\<close>: a token that does not unpack
  into exactly two parsed integers, and a division that raises, both run the handler.
\<close>

definition ratio_token :: "string \<Rightarrow> (int \<times> int) option" where
  \<comment> \<open>\<^verbatim>\<open>w_ratio, h_ratio = map(int, token.split(':'))\<close>; \<open>None\<close> when it raises\<close>
  "ratio_token token =
     (case map py_int (py_split CHR '':'' token) of
        [Some w_ratio, Some h_ratio] \<Rightarrow> Some (w_ratio, h_ratio)
      | _ \<Rightarrow> None)"

definition ratio_height :: "int \<Rightarrow> string \<Rightarrow> error + int" where
  "ratio_height W token =
     (case ratio_token token of
        None \<Rightarrow> default_height W
      | Some (w_ratio, h_ratio) \<Rightarrow>
          (case py_int_truediv (W * h_ratio) w_ratio of
             Inl e \<Rightarrow> default_height W
           | Inr h \<Rightarrow> Inr h))"

definition truthy :: "int option \<Rightarrow> bool" where
  "truthy v = (case v of None \<Rightarrow> False | Some n \<Rightarrow> n \<noteq> 0)"

definition calculate_dimensions :: "generator \<Rightarrow> error + generator" where
  "calculate_dimensions g =
     (let c = config g in
      if aspect_ratio c = ''source''
      then (case source_img g of
              None \<Rightarrow> Inl AttributeError
            | Some src \<Rightarrow>
               (case py_truediv (img_height src) (img_width src) of
                  Inl e \<Rightarrow> Inl e
                | Inr ratio \<Rightarrow>
                   (case py_imul (output_width c) ratio of
                      Inl e \<Rightarrow> Inl e
                    | Inr h \<Rightarrow> Inr (g\<lparr>window_height := Some (py_int_of_float h)\<rparr>))))
      else if aspect_ratio c = ''custom'' \<and> truthy (output_height c)
      then Inr (g\<lparr>window_height := output_height c\<rparr>)
      else (case ratio_height (output_width c) (aspect_ratio c) of
              Inl e \<Rightarrow> Inl e
            | Inr h \<Rightarrow> Inr (g\<lparr>window_height := Some h\<rparr>)))"

section \<open>Image preprocessor\<close>

text \<open>\<^verbatim>\<open>int(n * scale)\<close> for an int \<open>n\<close> and a float \<open>scale\<close>.\<close>

definition scaled_size :: "int \<Rightarrow> rat \<Rightarrow> error + int" where
  "scaled_size n scale =
     (case py_imul n scale of Inl e \<Rightarrow> Inl e | Inr v \<Rightarrow> Inr (py_int_of_float v))"

text \<open>\<^verbatim>\<open>Image.resize\<close> refuses a width or height below 1.\<close>

definition resize :: "image \<Rightarrow> int \<Rightarrow> int \<Rightarrow> error + image" where
  "resize src w h =
     (if w < 1 \<or> h < 1 then Inl ResizeError else Inr \<lparr>img_width = w, img_height = h\<rparr>)"

definition reconcile_window :: "generator \<Rightarrow> int \<Rightarrow> error + generator" where
  \<comment> \<open>the \<^verbatim>\<open>if new_width != self.config.output_width\<close> block\<close>
  "reconcile_window g new_width =
     (if new_width \<noteq> output_width (config g)
      then (case py_truediv new_width (output_width (config g)) of
              Inl e \<Rightarrow> Inl e
            | Inr scale_window \<Rightarrow>
               (case window_height g of
                  None \<Rightarrow> Inl TypeError
                | Some wh \<Rightarrow>
                   (case scaled_size wh scale_window of
                      Inl e \<Rightarrow> Inl e
                    | Inr wh' \<Rightarrow>
                        Inr (g\<lparr>window_height := Some wh',
                               config := (config g)\<lparr>output_width := new_width\<rparr>\<rparr>))))
      else Inr g)"

definition preprocess_image :: "generator \<Rightarrow> error + generator" where
  "preprocess_image g =
     (case source_img g of
        None \<Rightarrow> Inl AttributeError
      | Some src \<Rightarrow>
     (case py_truediv (output_width (config g)) (img_width src) of
        Inl e \<Rightarrow> Inl e
      | Inr scale_ratio \<Rightarrow>
     (case py_fmul scale_ratio (quality_factor (config g)) of
        Inl e \<Rightarrow> Inl e
      | Inr final_scale \<Rightarrow>
     (case scaled_size (img_width src) final_scale of
        Inl e \<Rightarrow> Inl e
      | Inr new_width \<Rightarrow>
     (case scaled_size (img_height src) final_scale of
        Inl e \<Rightarrow> Inl e
      | Inr new_height \<Rightarrow>
     (case resize src new_width new_height of
        Inl e \<Rightarrow> Inl e
      | Inr scaled \<Rightarrow> reconcile_window (g\<lparr>scaled_image := Some scaled\<rparr>) new_width))))))"

section \<open>Output encoder\<close>

text \<open>
  What is written to disk: an animated GIF with its frames, the per-frame duration in
  milliseconds and PIL's \<^verbatim>\<open>loop\<close> value (0 is "repeat forever", 1 is "play once"),
  or a video with its frames, frame rate, and whether the clip was looped. The video
  encoder itself is outside the model; the model records what it is asked to write.
\<close>

datatype media =
    Gif "frame list" int int
  | Mp4 "frame list" int bool

definition duration_ms :: "config \<Rightarrow> error + int" where
  \<comment> \<open>\<^verbatim>\<open>int(1000 / self.config.framerate)\<close>\<close>
  "duration_ms c = py_int_truediv 1000 (framerate c)"

definition loop_count :: "config \<Rightarrow> int" where
  "loop_count c = (if scroll_mode c \<noteq> ''down-once'' then 0 else 1)"

definition save_as_gif :: "generator \<Rightarrow> int \<Rightarrow> error + generator \<times> string \<times> media" where
  "save_as_gif g d =
     (case frames g of
        [] \<Rightarrow> Inl IndexError
      | f # fs \<Rightarrow> Inr (g, output_path (config g), Gif (f # fs) d (loop_count (config g))))"

text \<open>
  \<open>moviepy\<close> tells whether \<^verbatim>\<open>from moviepy.editor import ImageSequenceClip\<close> and
  \<^verbatim>\<open>import numpy\<close> succeed; when they do not, the ImportError handler runs.
\<close>

definition save_as_mp4 :: "bool \<Rightarrow> generator \<Rightarrow> error + generator \<times> string \<times> media" where
  "save_as_mp4 moviepy g =
     (if moviepy
      then Inr (g, output_path (config g),
                Mp4 (frames g) (framerate (config g)) (scroll_mode (config g) \<noteq> ''down-once''))
      else (let base_name = fst (splitext (output_path (config g)));
                g' = g\<lparr>config := (config g)\<lparr>output_path := base_name @ ''.gif''\<rparr>\<rparr>
            in case duration_ms (config g') of
                 Inl e \<Rightarrow> Inl e
               | Inr d \<Rightarrow> save_as_gif g' d))"

definition save_output :: "bool \<Rightarrow> generator \<Rightarrow> error + generator \<times> string \<times> media" where
  "save_output moviepy g =
     (if frames g = [] then Inl NoFrames
      else (case duration_ms (config g) of
              Inl e \<Rightarrow> Inl e
            | Inr d \<Rightarrow>
                if py_upper (output_format (config g)) = ''GIF'' then save_as_gif g d
                else if py_upper (output_format (config g)) = ''MP4'' then save_as_mp4 moviepy g
                else Inl (UnsupportedFormat (output_format (config g)))))"

section \<open>The pipeline\<close>

definition new_generator :: "config \<Rightarrow> generator" where
  "new_generator c =
     \<lparr>config = c, source_img = None, scaled_image = None, window_height = None, frames = []\<rparr>"

text \<open>\<open>files\<close> maps a path to the picture stored there, if any.\<close>

definition load_image :: "(string \<rightharpoonup> image) \<Rightarrow> generator \<Rightarrow> error + generator" where
  "load_image files g =
     (case files (source_image (config g)) of
        None \<Rightarrow> Inl FileNotFoundError
      | Some img \<Rightarrow> Inr (g\<lparr>source_img := Some img\<rparr>))"

text \<open>The stages of \<^verbatim>\<open>run\<close> up to and including \<^verbatim>\<open>generate_frames\<close>.\<close>

definition schedule :: "(string \<rightharpoonup> image) \<Rightarrow> config \<Rightarrow> (error + generator) option" where
  "schedule files c =
     (case load_image files (new_generator c) of
        Inl e \<Rightarrow> Some (Inl e)
      | Inr g1 \<Rightarrow>
     (case calculate_dimensions g1 of
        Inl e \<Rightarrow> Some (Inl e)
      | Inr g2 \<Rightarrow>
     (case preprocess_image g2 of
        Inl e \<Rightarrow> Some (Inl e)
      | Inr g3 \<Rightarrow> generate_frames g3)))"

definition run :: "(string \<rightharpoonup> image) \<Rightarrow> bool \<Rightarrow> config \<Rightarrow> bool option" where
  "run files moviepy c =
     (case schedule files c of
        None \<Rightarrow> None
      | Some (Inl e) \<Rightarrow> Some False
      | Some (Inr g) \<Rightarrow>
          (case save_output moviepy g of Inl e \<Rightarrow> Some False | Inr w \<Rightarrow> Some True))"

section \<open>Offsets, counts and example inputs used in the statements\<close>

text \<open>
  The clamped steps from 0 down to \<open>max_y\<close> and from \<open>max_y\<close> back up to 0:
  \<open>\<lceil>max_y / speed\<rceil>\<close> offsets each.
\<close>

definition descent_offsets :: "int \<Rightarrow> int \<Rightarrow> int list" where
  "descent_offsets speed max_y =
     map (\<lambda>k. min ((int k + 1) * speed) max_y) [0..<nat ((max_y + speed - 1) div speed)]"

definition ascent_offsets :: "int \<Rightarrow> int \<Rightarrow> int list" where
  "ascent_offsets speed max_y =
     map (\<lambda>k. max (max_y - (int k + 1) * speed) 0) [0..<nat ((max_y + speed - 1) div speed)]"

text \<open>
  The window at offset \<open>y\<close>, as \<^verbatim>\<open>_crop_safe\<close> returns it when the crop does not
  raise, and the frames cut at a list of offsets.
\<close>

definition window_at :: "image \<Rightarrow> int \<Rightarrow> int \<Rightarrow> int \<Rightarrow> frame" where
  "window_at scaled ow wh y =
     \<lparr>box_top = y, box_bottom = min (y + wh) (img_height scaled), box_width = ow,
      canvas_height = (if min (y + wh) (img_height scaled) - y < wh then wh
                       else min (y + wh) (img_height scaled) - y),
      watermark = None\<rparr>"

definition windows :: "image \<Rightarrow> int \<Rightarrow> int \<Rightarrow> int list \<Rightarrow> frame list" where
  "windows scaled ow wh ys = map (window_at scaled ow wh) ys"

text \<open>
  The offsets of a scrolling schedule: \<open>pf\<close> times 0, the descent, \<open>pf\<close> times
  \<open>max_y\<close>; then the ascent in the mode \<open>down-up\<close>, the slice
  \<^verbatim>\<open>[:-pf]\<close> in the mode \<open>down-once\<close>, and nothing more in any other mode.
\<close>

definition scroll_schedule :: "string \<Rightarrow> int \<Rightarrow> int \<Rightarrow> int \<Rightarrow> int list" where
  "scroll_schedule mode speed max_y pf =
     (if mode = ''down-up''
      then replicate (nat pf) 0 @ descent_offsets speed max_y @ replicate (nat pf) max_y
           @ ascent_offsets speed max_y
      else if mode = ''down-once''
      then py_slice_to
             (replicate (nat pf) 0 @ descent_offsets speed max_y @ replicate (nat pf) max_y)
             (- pf)
      else replicate (nat pf) 0 @ descent_offsets speed max_y @ replicate (nat pf) max_y)"

text \<open>Reading a scheduler result: its frames, their number, their offsets.\<close>

definition frames_of :: "(error + generator) option \<Rightarrow> frame list option" where
  "frames_of r = (case r of Some (Inr g) \<Rightarrow> Some (frames g) | _ \<Rightarrow> None)"

definition frame_count :: "(error + generator) option \<Rightarrow> nat option" where
  "frame_count r = map_option length (frames_of r)"

definition frame_offsets :: "(error + generator) option \<Rightarrow> int list option" where
  "frame_offsets r = map_option (map box_top) (frames_of r)"

text \<open>Reading the window height a stage leaves behind.\<close>

definition resolved_height :: "error + generator \<Rightarrow> int option" where
  "resolved_height r = (case r of Inl e \<Rightarrow> None | Inr g \<Rightarrow> window_height g)"

text \<open>
  The end-to-end example: an 800 x 3000 picture, width 800, ratio 16:9, quality 1.0,
  speed 8, 24 frames per second, pause 2.0, mode down. The other pictures are
  shorter than the window (800 x 300) and of odd height (800 x 3001).
\<close>

definition example_config :: config where
  "example_config =
     \<lparr>source_image = ''long.png'', aspect_ratio = ''16:9'', output_width = 800,
      output_height = None, scroll_speed = 8, framerate = 24, scroll_mode = ''down'',
      pause_duration = 2, output_format = ''GIF'', output_path = ''output_scroll.gif'',
      quality_factor = 1, add_watermark = False,
      watermark_text = ''Created with Scrollify''\<rparr>"

definition example_files :: "string \<rightharpoonup> image" where
  "example_files =
     [''long.png'' \<mapsto> \<lparr>img_width = 800, img_height = 3000\<rparr>,
      ''short.png'' \<mapsto> \<lparr>img_width = 800, img_height = 300\<rparr>,
      ''odd.png'' \<mapsto> \<lparr>img_width = 800, img_height = 3001\<rparr>]"

text \<open>The generator of the example after \<^verbatim>\<open>preprocess_image\<close>, and its first
  window.\<close>

definition example_frame :: frame where
  "example_frame =
     \<lparr>box_top = 0, box_bottom = 450, box_width = 800, canvas_height = 450, watermark = None\<rparr>"

definition example_generator :: "config \<Rightarrow> int \<Rightarrow> generator" where
  "example_generator c h =
     \<lparr>config = c, source_img = Some \<lparr>img_width = 800, img_height = h\<rparr>,
      scaled_image = Some \<lparr>img_width = 800, img_height = h\<rparr>,
      window_height = Some 450, frames = []\<rparr>"

section \<open>Binary64 arithmetic\<close>

subsection \<open>Powers of two and the binary exponent\<close>

lemma pow2_power_int: "pow2 k = power_int 2 k"
  unfolding pow2_def power_int_def by (simp add: inverse_eq_divide power_one_over)

lemma pow2_pos: "0 < pow2 k"
  by (simp add: pow2_power_int)

lemma pow2_add: "pow2 (a + b) = pow2 a * pow2 b"
  by (simp add: pow2_power_int power_int_add)

lemma pow2_mono: "a \<le> b \<Longrightarrow> pow2 a \<le> pow2 b"
  by (simp add: pow2_power_int power_int_increasing)

lemma pow2_nat: "0 \<le> k \<Longrightarrow> pow2 k = 2 ^ nat k"
  by (simp add: pow2_def)

lemma pow2_half: "pow2 (k - 1) = pow2 k / 2"
  using pow2_add [of "k - 1" 1] by (simp add: pow2_def)

lemma ilog2_bounds:
  assumes "0 < x"
  shows "pow2 (ilog2 x) \<le> x \<and> x < pow2 (ilog2 x + 1)"
proof (cases "1 \<le> x")
  case True
  define n where "n = \<lfloor>x\<rfloor>"
  have n1: "1 \<le> n" using True by (simp add: n_def le_floor_iff)
  then have n0: "0 < n" by simp
  have b: "2 ^ nat (bitlen n - 1) \<le> n" "n < 2 ^ nat (bitlen n)"
    using bitlen_bounds [OF n0] by auto
  have b1: "1 \<le> bitlen n" using n0 by (simp add: bitlen_alt_def)
  have e: "ilog2 x = bitlen n - 1" using True by (simp add: ilog2_def n_def)
  have "pow2 (bitlen n - 1) = of_int (2 ^ nat (bitlen n - 1))"
    using b1 by (simp add: pow2_nat)
  also have "\<dots> \<le> of_int n" using b(1) by (simp only: of_int_le_iff)
  also have "\<dots> \<le> x" unfolding n_def using floor_correct [of x] by simp
  finally have lo: "pow2 (ilog2 x) \<le> x" by (simp add: e)
  have "n + 1 \<le> 2 ^ nat (bitlen n)" using b(2) by simp
  then have "(of_int (n + 1) :: rat) \<le> of_int (2 ^ nat (bitlen n))"
    by (simp only: of_int_le_iff)
  moreover have "x < of_int (n + 1)" unfolding n_def using floor_correct [of x] by simp
  ultimately have "x < of_int (2 ^ nat (bitlen n))" by linarith
  also have "\<dots> = pow2 (bitlen n)" using b1 by (simp add: pow2_nat)
  finally have hi: "x < pow2 (ilog2 x + 1)" by (simp add: e)
  from lo hi show ?thesis by simp
next
  case False
  then have x1: "x < 1" by simp
  define y where "y = 1 / x"
  have y1: "1 < y" using assms x1 by (simp add: y_def)
  define m where "m = \<lceil>y\<rceil> - 1"
  have my: "of_int m < y" "y \<le> of_int m + 1"
    unfolding m_def using ceiling_correct [of y] by simp_all
  have m1: "1 \<le> m" using y1 by (simp add: m_def less_ceiling_iff)
  then have m0: "0 < m" by simp
  have b: "2 ^ nat (bitlen m - 1) \<le> m" "m < 2 ^ nat (bitlen m)"
    using bitlen_bounds [OF m0] by auto
  have b1: "1 \<le> bitlen m" using m0 by (simp add: bitlen_alt_def)
  have e: "ilog2 x = - bitlen m" using False by (simp add: ilog2_def m_def y_def)
  have "m + 1 \<le> 2 ^ nat (bitlen m)" using b(2) by simp
  then have "(of_int (m + 1) :: rat) \<le> of_int (2 ^ nat (bitlen m))"
    by (simp only: of_int_le_iff)
  then have "y \<le> 2 ^ nat (bitlen m)" using my(2) by simp
  then have "1 / x \<le> 2 ^ nat (bitlen m)" by (simp add: y_def)
  then have "1 / 2 ^ nat (bitlen m) \<le> x" using assms
    by (simp add: field_simps)
  moreover have "pow2 (- bitlen m) = 1 / 2 ^ nat (bitlen m)"
    using b1 by (simp add: pow2_def)
  ultimately have lo: "pow2 (ilog2 x) \<le> x" by (simp add: e)
  have "(of_int (2 ^ nat (bitlen m - 1)) :: rat) \<le> of_int m"
    using b(1) by (simp only: of_int_le_iff)
  moreover have "(of_int (2 ^ nat (bitlen m - 1)) :: rat) = 2 ^ nat (bitlen m - 1)" by simp
  ultimately have "2 ^ nat (bitlen m - 1) < y" using my(1) by linarith
  then have "2 ^ nat (bitlen m - 1) < 1 / x" by (simp add: y_def)
  then have "x < 1 / 2 ^ nat (bitlen m - 1)" using assms
    by (simp add: field_simps)
  moreover have "pow2 (- bitlen m + 1) = 1 / 2 ^ nat (bitlen m - 1)"
    using b1 by (auto simp add: pow2_def)
  ultimately have hi: "x < pow2 (ilog2 x + 1)" by (simp add: e)
  from lo hi show ?thesis by simp
qed

lemma ilog2_unique:
  assumes "pow2 e \<le> x" "x < pow2 (e + 1)"
  shows "ilog2 x = e"
proof -
  have x0: "0 < x" using assms(1) pow2_pos [of e] by linarith
  note b = ilog2_bounds [OF x0]
  have "pow2 e < pow2 (ilog2 x + 1)" using assms(1) b by linarith
  then have "e < ilog2 x + 1"
    using pow2_mono [of "ilog2 x + 1" e] by (cases "e < ilog2 x + 1") auto
  moreover have "pow2 (ilog2 x) < pow2 (e + 1)" using assms(2) b by linarith
  then have "ilog2 x < e + 1"
    using pow2_mono [of "e + 1" "ilog2 x"] by (cases "ilog2 x < e + 1") auto
  ultimately show ?thesis by simp
qed

lemma ilog2_less:
  assumes "0 < x" "x < pow2 k"
  shows "ilog2 x < k"
proof -
  have "pow2 (ilog2 x) < pow2 k" using ilog2_bounds [OF assms(1)] assms(2) by linarith
  then show ?thesis using pow2_mono [of k "ilog2 x"] by (cases "ilog2 x < k") auto
qed

lemma ilog2_ge:
  assumes "pow2 k \<le> x"
  shows "k \<le> ilog2 x"
proof -
  have x0: "0 < x" using assms pow2_pos [of k] by linarith
  have "pow2 k < pow2 (ilog2 x + 1)" using ilog2_bounds [OF x0] assms by linarith
  then have "k < ilog2 x + 1"
    using pow2_mono [of "ilog2 x + 1" k] by (cases "k < ilog2 x + 1") auto
  then show ?thesis by simp
qed

subsection \<open>Rounding to binary64\<close>

lemma round_half_even_of_int: "round_half_even (of_int n) = n"
  by (simp add: round_half_even_def)

lemma round_half_even_err: "\<bar>of_int (round_half_even r) - r\<bar> \<le> 1 / 2"
proof -
  have "of_int \<lfloor>r\<rfloor> \<le> r" "r < of_int \<lfloor>r\<rfloor> + 1" using floor_correct [of r] by simp_all
  then show ?thesis by (auto simp: round_half_even_def Let_def)
qed

lemma round_half_even_nonneg: "0 \<le> r \<Longrightarrow> 0 \<le> round_half_even r"
  by (auto simp: round_half_even_def Let_def)

text \<open>The spacing of binary64 values around \<open>x\<close>.\<close>

lemma fl_spacing:
  assumes "x \<noteq> 0"
  shows "fl x = sgn x * of_int (round_half_even (\<bar>x\<bar> / pow2 (max (ilog2 \<bar>x\<bar>) (- 1022) - 52)))
                 * pow2 (max (ilog2 \<bar>x\<bar>) (- 1022) - 52)"
  using assms by (simp add: fl_def Let_def)

lemma fl_err:
  assumes "x \<noteq> 0"
  shows "\<bar>fl x - x\<bar> \<le> pow2 (max (ilog2 \<bar>x\<bar>) (- 1022) - 53)"
proof -
  define u where "u = pow2 (max (ilog2 \<bar>x\<bar>) (- 1022) - 52)"
  define m where "m = round_half_even (\<bar>x\<bar> / u)"
  have u0: "0 < u" by (simp add: u_def pow2_pos)
  have f: "fl x = sgn x * of_int m * u" using fl_spacing [OF assms] by (simp add: u_def m_def)
  have "\<bar>x\<bar> / u * u = \<bar>x\<bar>" using u0 by simp
  then have "sgn x * (\<bar>x\<bar> / u * u) = x" by (simp only: sgn_mult_abs)
  then have "fl x - x = sgn x * of_int m * u - sgn x * (\<bar>x\<bar> / u * u)" by (simp only: f)
  then have "fl x - x = sgn x * ((of_int m - \<bar>x\<bar> / u) * u)"
    by (simp only: left_diff_distrib right_diff_distrib mult.assoc)
  then have "\<bar>fl x - x\<bar> = \<bar>of_int m - \<bar>x\<bar> / u\<bar> * u"
    using assms u0 by (simp add: abs_mult abs_sgn_eq)
  also have "\<dots> \<le> (1 / 2) * u"
    using round_half_even_err [of "\<bar>x\<bar> / u"] u0 unfolding m_def
    by (intro mult_right_mono) simp_all
  also have "\<dots> = pow2 (max (ilog2 \<bar>x\<bar>) (- 1022) - 53)"
    using pow2_half [of "max (ilog2 \<bar>x\<bar>) (- 1022) - 52"] by (simp add: u_def)
  finally show ?thesis .
qed

lemma fl_nonneg: "0 \<le> x \<Longrightarrow> 0 \<le> fl x"
proof (cases "x = 0")
  case True then show ?thesis by (simp add: fl_def)
next
  case False
  assume "0 \<le> x"
  then have x0: "0 < x" using False by simp
  have "0 \<le> round_half_even (\<bar>x\<bar> / pow2 (max (ilog2 \<bar>x\<bar>) (- 1022) - 52))"
    by (rule round_half_even_nonneg) (simp add: pow2_pos less_imp_le)
  then show ?thesis using x0 pow2_pos [of "max (ilog2 \<bar>x\<bar>) (- 1022) - 52"]
    by (simp add: fl_spacing [OF False])
qed

text \<open>A value \<open>m * 2^k\<close> with \<open>\<bar>m\<bar> < 2^53\<close> is a binary64 value: rounding keeps it.\<close>

lemma fl_exact:
  assumes "\<bar>m\<bar> < 2 ^ 53" "- 1074 \<le> k"
  shows "fl (of_int m * pow2 k) = of_int m * pow2 k"
proof (cases "m = 0")
  case True then show ?thesis by (simp add: fl_def)
next
  case False
  define x where "x = of_int m * pow2 k"
  have x0: "x \<noteq> 0" using False pow2_pos [of k] by (simp add: x_def)
  have ax: "\<bar>x\<bar> = of_int \<bar>m\<bar> * pow2 k" using pow2_pos [of k] by (simp add: x_def abs_mult)
  define e where "e = max (ilog2 \<bar>x\<bar>) (- 1022)"
  have "(of_int \<bar>m\<bar> :: rat) < of_int (2 ^ 53)" using assms(1) by (simp only: of_int_less_iff)
  then have "(of_int \<bar>m\<bar> :: rat) < pow2 53" by (simp add: pow2_def)
  then have "\<bar>x\<bar> < pow2 53 * pow2 k" using pow2_pos [of k] by (simp add: ax)
  then have "\<bar>x\<bar> < pow2 (k + 53)" by (simp add: pow2_add mult.commute)
  then have "ilog2 \<bar>x\<bar> < k + 53" using x0 by (intro ilog2_less) simp_all
  then have ek: "e - 52 \<le> k" using assms(2) by (simp add: e_def)
  define j where "j = nat (k - (e - 52))"
  have "pow2 k = pow2 (e - 52) * pow2 (int j)"
    using ek pow2_add [of "e - 52" "int j"] by (simp add: j_def)
  then have pk: "pow2 k = pow2 (e - 52) * 2 ^ j" by (simp add: pow2_nat)
  have q: "\<bar>x\<bar> / pow2 (e - 52) = of_int (\<bar>m\<bar> * 2 ^ j)"
    using pow2_pos [of "e - 52"] by (simp add: ax pk)
  have "fl x = sgn x * of_int (\<bar>m\<bar> * 2 ^ j) * pow2 (e - 52)"
    unfolding fl_spacing [OF x0] e_def [symmetric] q round_half_even_of_int ..
  also have "\<dots> = sgn x * \<bar>x\<bar>" by (simp add: ax pk)
  also have "\<dots> = x" by (simp add: sgn_mult_abs)
  finally show ?thesis by (simp add: x_def)
qed

lemma fl_of_int: "\<bar>m\<bar> < 2 ^ 53 \<Longrightarrow> fl (of_int m) = of_int m"
  using fl_exact [of m 0] by (simp add: pow2_def)

text \<open>No overflow below \<open>2^1023\<close>.\<close>

lemma fl_bound:
  assumes "\<bar>x\<bar> < pow2 1023"
  shows "\<bar>fl x\<bar> < pow2 1024"
proof (cases "x = 0")
  case True then show ?thesis using pow2_pos [of 1024] by (simp add: fl_def)
next
  case False
  then have a0: "0 < \<bar>x\<bar>" by simp
  define e where "e = max (ilog2 \<bar>x\<bar>) (- 1022)"
  have "ilog2 \<bar>x\<bar> < 1023" using a0 assms by (rule ilog2_less)
  then have "e - 53 \<le> 1023" by (simp add: e_def)
  then have "pow2 (e - 53) \<le> pow2 1023" by (rule pow2_mono)
  moreover have "\<bar>fl x - x\<bar> \<le> pow2 (e - 53)" using fl_err [OF False] by (simp add: e_def)
  ultimately have "\<bar>fl x\<bar> < pow2 1023 + pow2 1023" using assms by linarith
  also have "\<dots> = pow2 1024" using pow2_add [of 1023 1] by (simp add: pow2_def)
  finally show ?thesis .
qed

lemma to_double_bounded: "\<bar>x\<bar> < pow2 1023 \<Longrightarrow> to_double x = Inr (fl x)"
  using fl_bound [of x] by (simp add: to_double_def Let_def)

lemma small_less_pow2_1023: "\<bar>x\<bar> \<le> 2 ^ 53 \<Longrightarrow> \<bar>x\<bar> < pow2 1023"
proof -
  assume a: "\<bar>x\<bar> \<le> 2 ^ 53"
  have "(2::rat) ^ 53 = pow2 53" by (simp add: pow2_def)
  moreover have "pow2 53 < pow2 54" using pow2_add [of 53 1] pow2_pos [of 53] by (simp add: pow2_def)
  moreover have "pow2 54 \<le> pow2 1023" by (rule pow2_mono) simp
  ultimately show ?thesis using a by linarith
qed

lemma to_double_exact:
  assumes "\<bar>m\<bar> < 2 ^ 53" "- 1074 \<le> k" "k \<le> 0"
  shows "to_double (of_int m * pow2 k) = Inr (of_int m * pow2 k)"
proof -
  have "(of_int \<bar>m\<bar> :: rat) \<le> of_int (2 ^ 53)" using assms(1) by (simp only: of_int_le_iff)
  then have m: "\<bar>of_int m :: rat\<bar> \<le> 2 ^ 53" by simp
  have "pow2 k \<le> pow2 0" using assms(3) by (rule pow2_mono)
  then have "pow2 k \<le> 1" by (simp add: pow2_def)
  then have "\<bar>of_int m :: rat\<bar> * pow2 k \<le> 2 ^ 53 * 1"
    using m pow2_pos [of k] by (intro mult_mono) simp_all
  then have "\<bar>of_int m * pow2 k\<bar> \<le> 2 ^ 53" using pow2_pos [of k] by (simp add: abs_mult)
  then have "to_double (of_int m * pow2 k) = Inr (fl (of_int m * pow2 k))"
    by (intro to_double_bounded small_less_pow2_1023)
  then show ?thesis by (simp add: fl_exact [OF assms(1,2)])
qed

lemma to_double_of_int: "\<bar>m\<bar> < 2 ^ 53 \<Longrightarrow> to_double (of_int m) = Inr (of_int m)"
  using to_double_exact [of m 0] by (simp add: pow2_def)

lemma to_double_dyadic:
  assumes "\<bar>m\<bar> < 2 ^ 53" "k \<le> 1074"
  shows "to_double (of_int m / 2 ^ k) = Inr (of_int m / 2 ^ k)"
proof -
  have "pow2 (- int k) = 1 / 2 ^ k" by (simp add: pow2_def)
  then have "(of_int m :: rat) / 2 ^ k = of_int m * pow2 (- int k)" by simp
  moreover have "to_double (of_int m * pow2 (- int k)) = Inr (of_int m * pow2 (- int k))"
    using assms by (intro to_double_exact) simp_all
  ultimately show ?thesis by simp
qed

lemma floor_rat_numeral: "\<lfloor>numeral a / numeral b :: rat\<rfloor> = numeral a div numeral b"
  using floor_divide_of_int_eq [of "numeral a" "numeral b", where ?'a = rat] by simp

lemma round_rat_numeral:
  "round (numeral a / numeral b :: rat) = (2 * numeral a + numeral b) div (2 * numeral b)"
proof -
  have "(numeral a / numeral b :: rat) + 1 / 2
        = of_int (2 * numeral a + numeral b) / of_int (2 * numeral b)"
    by (simp add: field_simps)
  then show ?thesis unfolding round_def by (simp only: floor_divide_of_int_eq)
qed

lemma py_int_of_float_of_int: "py_int_of_float (of_int n) = n"
  by (simp add: py_int_of_float_def)

lemma py_int_of_float_floor: "0 \<le> x \<Longrightarrow> py_int_of_float x = \<lfloor>x\<rfloor>"
  by (simp add: py_int_of_float_def)

subsection \<open>\<^verbatim>\<open>int(a / b)\<close> against integer division\<close>

text \<open>
  For \<open>0 \<le> a\<close>, \<open>0 < b\<close> and \<open>a + b \<le> 2^53\<close> the rounding of the quotient
  never crosses an integer, so \<^verbatim>\<open>int(a / b)\<close> is \<open>a div b\<close>.
\<close>

lemma py_int_truediv_floor:
  assumes a: "0 \<le> a" and b: "0 < b" and s: "a + b \<le> 2 ^ 53"
  shows "py_int_truediv a b = Inr (a div b)"
proof -
  define q where "q = a div b"
  define r where "r = a mod b"
  define x :: rat where "x = of_int a / of_int b"
  have q0: "0 \<le> q" using a b by (simp add: q_def pos_imp_zdiv_nonneg_iff)
  have r0: "0 \<le> r" "r < b" using b by (simp_all add: r_def)
  have aqr: "a = q * b + r" by (simp add: q_def r_def)
  have qb: "q * b \<le> a" using r0 aqr by simp
  have q53: "q + 1 \<le> 2 ^ 53"
  proof -
    have "q * 1 \<le> q * b" using q0 b by (intro mult_left_mono) simp_all
    then show ?thesis using qb s b by simp
  qed
  have bq: "(of_int b :: rat) > 0" using b by simp
  have xq: "x = of_int q + of_int r / of_int b"
    using bq by (simp add: x_def aqr field_simps)
  have bnz: "b \<noteq> 0" using b by simp
  show ?thesis
  proof (cases "r = 0")
    case True
    then have "x = of_int q" by (simp add: xq)
    moreover have "to_double (of_int q) = Inr (of_int q)"
      using q0 q53 by (intro to_double_of_int) simp
    ultimately show ?thesis
      using bnz by (simp add: py_int_truediv_def py_truediv_def x_def [symmetric]
          py_int_of_float_of_int q_def)
  next
    case False
    then have r1: "1 \<le> r" "r \<le> b - 1" using r0 by simp_all
    have "(of_int 1 :: rat) \<le> of_int r" using r1(1) by (simp only: of_int_le_iff)
    then have lo: "of_int q + 1 / of_int b \<le> x"
      using bq by (simp add: xq divide_right_mono)
    have "(of_int r :: rat) \<le> of_int (b - 1)" using r1(2) by (simp only: of_int_le_iff)
    then have "(of_int r :: rat) / of_int b \<le> of_int (b - 1) / of_int b"
      using bq by (simp add: divide_right_mono)
    also have "\<dots> = 1 - 1 / of_int b" using bq by (simp add: field_simps)
    finally have hi: "x \<le> of_int q + 1 - 1 / of_int b" by (simp add: xq)
    have ib: "0 < 1 / (of_int b :: rat)" using bq by simp
    have qq: "(0 :: rat) \<le> of_int q" using q0 by simp
    have x0: "0 < x" using lo ib qq by linarith
    have xn: "x \<noteq> 0" using x0 by simp
    have xlt: "x < of_int q + 1" using hi ib by linarith
    \<comment> \<open>the exponent is in the normal range\<close>
    have "b \<le> 2 ^ 53" using s a by simp
    then have "(of_int b :: rat) \<le> of_int (2 ^ 53)" by (simp only: of_int_le_iff)
    then have "(of_int b :: rat) \<le> 2 ^ 53" by simp
    then have "1 / 2 ^ 53 \<le> 1 / (of_int b :: rat)" using bq by (simp add: field_simps)
    moreover have "pow2 (- 53) = 1 / 2 ^ 53" by (simp add: pow2_def)
    ultimately have "pow2 (- 53) \<le> x" using lo qq by linarith
    then have "- 53 \<le> ilog2 x" by (rule ilog2_ge)
    then have e: "max (ilog2 \<bar>x\<bar>) (- 1022) = ilog2 x" using x0 by simp
    have "pow2 (ilog2 x - 53) = pow2 (ilog2 x) * pow2 (- 53)"
      using pow2_add [of "ilog2 x" "- 53"] by simp
    also have "\<dots> \<le> x * pow2 (- 53)"
      using ilog2_bounds [OF x0] pow2_pos [of "- 53"] by (intro mult_right_mono) simp_all
    also have "\<dots> < (of_int q + 1) * pow2 (- 53)"
      using xlt pow2_pos [of "- 53"] by (intro mult_strict_right_mono)
    also have "\<dots> = of_int (q + 1) / 2 ^ 53" by (simp add: pow2_def)
    also have "\<dots> \<le> 1 / of_int b"
    proof -
      have "(q + 1) * b \<le> 2 ^ 53" using qb s by (simp add: algebra_simps)
      then have "(of_int ((q + 1) * b) :: rat) \<le> of_int (2 ^ 53)" by (simp only: of_int_le_iff)
      then have "(of_int (q + 1) :: rat) * of_int b \<le> 2 ^ 53" by simp
      then show ?thesis using bq by (simp add: field_simps)
    qed
    finally have err: "pow2 (ilog2 x - 53) < 1 / of_int b" .
    have "\<bar>fl x - x\<bar> \<le> pow2 (ilog2 x - 53)" using fl_err [OF xn] by (simp add: e)
    then have d: "\<bar>fl x - x\<bar> < 1 / of_int b" using err by linarith
    have f1: "of_int q < fl x" using d lo by linarith
    have f2: "fl x < of_int q + 1" using d hi by linarith
    have fq: "\<lfloor>fl x\<rfloor> = q" using f1 f2 by (intro floor_unique) simp_all
    have "0 \<le> fl x" using f1 qq by linarith
    then have t: "py_int_of_float (fl x) = q" by (simp add: py_int_of_float_floor fq)
    have "(of_int (q + 1) :: rat) \<le> of_int (2 ^ 53)" using q53 by (simp only: of_int_le_iff)
    then have "(of_int q :: rat) + 1 \<le> 2 ^ 53" by simp
    then have "\<bar>x\<bar> \<le> 2 ^ 53" using xlt x0 by linarith
    then have "to_double x = Inr (fl x)" by (intro to_double_bounded small_less_pow2_1023)
    then show ?thesis
      using bnz t by (simp add: py_int_truediv_def py_truediv_def x_def [symmetric] q_def)
  qed
qed

text \<open>A quotient of two ints with \<open>\<bar>a\<bar> < 2^1023\<close> does not overflow.\<close>

lemma py_int_truediv_defined:
  assumes "b \<noteq> 0" "\<bar>a\<bar> < 2 ^ 1023"
  shows "py_int_truediv a b = Inr (py_int_of_float (fl (of_int a / of_int b)))"
proof -
  have "1 \<le> \<bar>b\<bar>" using assms(1) by simp
  then have "(of_int 1 :: rat) \<le> of_int \<bar>b\<bar>" by (simp only: of_int_le_iff)
  then have b1: "1 \<le> \<bar>of_int b :: rat\<bar>" by simp
  have "(of_int \<bar>a\<bar> :: rat) < of_int (2 ^ 1023)" using assms(2) by (simp only: of_int_less_iff)
  then have a1: "\<bar>of_int a :: rat\<bar> < pow2 1023" by (simp add: pow2_def)
  have "\<bar>of_int a / of_int b :: rat\<bar> = \<bar>of_int a\<bar> / \<bar>of_int b\<bar>" by simp
  also have "\<dots> \<le> \<bar>of_int a\<bar> / 1" using b1 by (intro divide_left_mono) simp_all
  finally have "\<bar>of_int a / of_int b :: rat\<bar> < pow2 1023" using a1 by simp
  then have "to_double (of_int a / of_int b) = Inr (fl (of_int a / of_int b))"
    by (rule to_double_bounded)
  then show ?thesis using assms(1) by (simp add: py_int_truediv_def py_truediv_def)
qed

text \<open>\<^verbatim>\<open>int(1000 / n)\<close> is \<open>1000 div n\<close> for every positive \<open>n\<close>.\<close>

lemma int_1000_truediv:
  assumes "0 < n"
  shows "py_int_truediv 1000 n = Inr (1000 div n)"
proof (cases "1000 + n \<le> 2 ^ 53")
  case True
  then show ?thesis using assms by (intro py_int_truediv_floor) simp_all
next
  case False
  then have big: "2000 < n" by simp
  define x :: rat where "x = 1000 / of_int n"
  have "(of_int 2000 :: rat) < of_int n" using big by (simp only: of_int_less_iff)
  then have n2: "(2000 :: rat) < of_int n" by simp
  then have x0: "0 < x" and xh: "x < 1 / 2" by (simp_all add: x_def field_simps)
  have xn: "x \<noteq> 0" using x0 by simp
  have "x < pow2 0" using xh by (simp add: pow2_def)
  then have "ilog2 x < 0" using x0 by (intro ilog2_less)
  then have "max (ilog2 \<bar>x\<bar>) (- 1022) - 53 \<le> - 1" using x0 by simp
  then have "pow2 (max (ilog2 \<bar>x\<bar>) (- 1022) - 53) \<le> pow2 (- 1)" by (rule pow2_mono)
  then have "\<bar>fl x - x\<bar> \<le> 1 / 2" using fl_err [OF xn] by (simp add: pow2_def)
  then have f1: "fl x < 1" using xh by linarith
  have f0: "0 \<le> fl x" using x0 by (intro fl_nonneg) simp
  have "\<lfloor>fl x\<rfloor> = 0" using f0 f1 by (intro floor_unique) simp_all
  then have t: "py_int_of_float (fl x) = 0" using f0 by (simp add: py_int_of_float_floor)
  have "py_int_truediv 1000 n = Inr (py_int_of_float (fl (of_int 1000 / of_int n)))"
    using assms by (intro py_int_truediv_defined) simp_all
  then have "py_int_truediv 1000 n = Inr 0" using t by (simp add: x_def)
  moreover have "1000 div n = 0" using big by simp
  ultimately show ?thesis by simp
qed

section \<open>The scroll loops in closed form\<close>

text \<open>With a non-negative width and window height, a crop that starts inside the
  scaled image does not raise.\<close>

lemma crop_safe_window:
  "0 \<le> ow \<Longrightarrow> 0 \<le> wh \<Longrightarrow> y \<le> img_height scaled \<Longrightarrow>
     crop_safe scaled ow y wh = Inr (window_at scaled ow wh y)"
  by (simp add: crop_safe_def window_at_def Let_def)

lemma ceil_div_step:
  fixes speed d :: int
  assumes "0 < speed" "0 < d"
  shows "nat ((d + speed - 1) div speed) = Suc (nat ((d - min speed d + speed - 1) div speed))"
proof (cases "speed \<le> d")
  case True
  have "((d - speed + speed - 1) + speed) div speed = (d - speed + speed - 1) div speed + 1"
    by (rule div_add_self2) (use assms(1) in simp)
  moreover have "(d - speed + speed - 1) + speed = d + speed - 1" by simp
  ultimately have "(d + speed - 1) div speed = (d - speed + speed - 1) div speed + 1"
    by (simp only:)
  moreover have "0 \<le> (d - speed + speed - 1) div speed"
    using True assms by (simp add: pos_imp_zdiv_nonneg_iff)
  ultimately show ?thesis using True by (simp add: min_def)
next
  case False
  then have m: "min speed d = d" by simp
  have "(speed - 1) div speed = 0" using assms by simp
  moreover have "(d - 1) div speed = 0" using False assms by simp
  then have "((d - 1) + speed) div speed = 1"
    using div_add_self2 [of speed "d - 1"] assms(1) by simp
  moreover have "(d - 1) + speed = d + speed - 1" by simp
  ultimately show ?thesis by (simp add: m)
qed

lemma scroll_down_closed:
  assumes "0 < speed" "y \<le> max_y"
    and ok: "0 \<le> ow" "0 \<le> wh" "max_y \<le> img_height scaled"
  shows "scroll_down scaled ow wh speed max_y y fs =
    Some (Inr (max_y, fs @ map (\<lambda>k. window_at scaled ow wh (min (y + (int k + 1) * speed) max_y))
                       [0..<nat ((max_y - y + speed - 1) div speed)]))"
  using assms(1,2)
proof (induction "nat (max_y - y)" arbitrary: y fs rule: less_induct)
  case less
  show ?case
  proof (cases "y < max_y")
    case False
    then have "y = max_y" using less.prems by simp
    moreover have "(speed - 1) div speed = 0" using less.prems by simp
    ultimately show ?thesis by (subst scroll_down.simps) simp
  next
    case True
    define y' where "y' = min (y + speed) max_y"
    have y': "y < y'" "y' \<le> max_y" using True less.prems by (auto simp: y'_def)
    then have m: "nat (max_y - y') < nat (max_y - y)" by linarith
    note IH = less.hyps [OF m less.prems(1) y'(2)]
    define n where "n = nat ((max_y - y' + speed - 1) div speed)"
    have eq: "max_y - y - min speed (max_y - y) = max_y - y'" by (simp add: y'_def min_def)
    have "0 < max_y - y" using True by simp
    from ceil_div_step [OF less.prems(1) this]
    have n: "nat ((max_y - y + speed - 1) div speed) = Suc n"
      by (simp only: eq n_def)
    have step: "min (y' + (int k + 1) * speed) max_y = min (y + (int (Suc k) + 1) * speed) max_y" for k
    proof (cases "y + speed \<le> max_y")
      case True then show ?thesis by (simp add: y'_def algebra_simps)
    next
      case False
      have p: "0 \<le> int k * speed" using less.prems(1) by simp
      have a: "(int k + 1) * speed = int k * speed + speed"
        and b: "(int (Suc k) + 1) * speed = int k * speed + 2 * speed"
        by (simp_all add: algebra_simps)
      show ?thesis unfolding y'_def a b using p False less.prems(1) by arith
    qed
    have c: "crop_safe scaled ow y' wh = Inr (window_at scaled ow wh y')"
      using ok y'(2) by (intro crop_safe_window) simp_all
    have "scroll_down scaled ow wh speed max_y y fs =
          scroll_down scaled ow wh speed max_y y' (fs @ [window_at scaled ow wh y'])"
      using True c by (subst scroll_down.simps) (simp add: y'_def)
    also have "\<dots> = Some (Inr (max_y, (fs @ [window_at scaled ow wh y']) @
        map (\<lambda>k. window_at scaled ow wh (min (y' + (int k + 1) * speed) max_y)) [0..<n]))"
      using IH by (simp add: n_def)
    also have "(fs @ [window_at scaled ow wh y']) @
        map (\<lambda>k. window_at scaled ow wh (min (y' + (int k + 1) * speed) max_y)) [0..<n]
        = fs @ map (\<lambda>k. window_at scaled ow wh (min (y + (int k + 1) * speed) max_y)) [0..<Suc n]"
      by (simp only: map_upt_Suc step) (simp add: y'_def)
    finally show ?thesis by (simp only: n)
  qed
qed

lemma scroll_up_closed:
  assumes "0 < speed" "0 \<le> y" "y \<le> img_height scaled"
    and ok: "0 \<le> ow" "0 \<le> wh"
  shows "scroll_up scaled ow wh speed y fs =
    Some (Inr (0, fs @ map (\<lambda>k. window_at scaled ow wh (max (y - (int k + 1) * speed) 0))
                       [0..<nat ((y + speed - 1) div speed)]))"
  using assms(1,2,3)
proof (induction "nat y" arbitrary: y fs rule: less_induct)
  case less
  show ?case
  proof (cases "0 < y")
    case False
    then have "y = 0" using less.prems by simp
    moreover have "(speed - 1) div speed = 0" using less.prems by simp
    ultimately show ?thesis by (subst scroll_up.simps) simp
  next
    case True
    define y' where "y' = max (y - speed) 0"
    have y': "y' < y" "0 \<le> y'" using True less.prems by (auto simp: y'_def)
    then have m: "nat y' < nat y" by linarith
    have y's: "y' \<le> img_height scaled" using y'(1) less.prems(3) by simp
    note IH = less.hyps [OF m less.prems(1) y'(2) y's]
    define n where "n = nat ((y' + speed - 1) div speed)"
    have eq: "y - min speed y = y'" by (simp add: y'_def min_def max_def)
    from ceil_div_step [OF less.prems(1) True]
    have n: "nat ((y + speed - 1) div speed) = Suc n"
      by (simp only: eq n_def)
    have step: "max (y' - (int k + 1) * speed) 0 = max (y - (int (Suc k) + 1) * speed) 0" for k
    proof (cases "speed \<le> y")
      case True then show ?thesis by (simp add: y'_def algebra_simps)
    next
      case False
      have p: "0 \<le> int k * speed" using less.prems(1) by simp
      have a: "(int k + 1) * speed = int k * speed + speed"
        and b: "(int (Suc k) + 1) * speed = int k * speed + 2 * speed"
        by (simp_all add: algebra_simps)
      show ?thesis unfolding y'_def a b using p False less.prems(1) by arith
    qed
    have c: "crop_safe scaled ow y' wh = Inr (window_at scaled ow wh y')"
      using ok y's by (intro crop_safe_window) simp_all
    have "scroll_up scaled ow wh speed y fs =
          scroll_up scaled ow wh speed y' (fs @ [window_at scaled ow wh y'])"
      using True c by (subst scroll_up.simps) (simp add: y'_def)
    also have "\<dots> = Some (Inr (0, (fs @ [window_at scaled ow wh y']) @
        map (\<lambda>k. window_at scaled ow wh (max (y' - (int k + 1) * speed) 0)) [0..<n]))"
      using IH by (simp add: n_def)
    also have "(fs @ [window_at scaled ow wh y']) @
        map (\<lambda>k. window_at scaled ow wh (max (y' - (int k + 1) * speed) 0)) [0..<n]
        = fs @ map (\<lambda>k. window_at scaled ow wh (max (y - (int k + 1) * speed) 0)) [0..<Suc n]"
      by (simp only: map_upt_Suc step) (simp add: y'_def)
    finally show ?thesis by (simp only: n)
  qed
qed

section \<open>Frame scheduler: shape of the result\<close>

lemma ceil_div_pos:
  fixes speed m :: int
  assumes "0 < speed" "0 < m"
  shows "0 < (m + speed - 1) div speed" "m \<le> ((m + speed - 1) div speed) * speed"
    "((m + speed - 1) div speed - 1) * speed < m"
proof -
  define d where "d = (m + speed - 1) div speed"
  define r where "r = (m + speed - 1) mod speed"
  have r: "0 \<le> r" "r < speed" using assms(1) by (simp_all add: r_def)
  have e: "m + speed - 1 = d * speed + r" by (simp add: d_def r_def)
  have ds: "m \<le> d * speed" using e r by linarith
  have "(d - 1) * speed = d * speed - speed" by (simp add: algebra_simps)
  then have lt: "(d - 1) * speed < m" using e r by linarith
  have "0 < d"
  proof (rule ccontr)
    assume "\<not> 0 < d"
    then have "d * speed \<le> 0 * speed" using assms(1) by (intro mult_right_mono) simp_all
    then show False using ds assms(2) by simp
  qed
  then show "0 < (m + speed - 1) div speed" "m \<le> ((m + speed - 1) div speed) * speed"
    "((m + speed - 1) div speed - 1) * speed < m"
    using ds lt by (simp_all add: d_def)
qed

lemma length_descent_offsets:
  "length (descent_offsets speed max_y) = nat ((max_y + speed - 1) div speed)"
  by (simp add: descent_offsets_def)

lemma length_ascent_offsets:
  "length (ascent_offsets speed max_y) = nat ((max_y + speed - 1) div speed)"
  by (simp add: ascent_offsets_def)

lemma descent_offsets_nth:
  "k < length (descent_offsets speed max_y) \<Longrightarrow>
     descent_offsets speed max_y ! k = min ((int k + 1) * speed) max_y"
  by (simp add: descent_offsets_def)

lemma ascent_offsets_nth:
  "k < length (ascent_offsets speed max_y) \<Longrightarrow>
     ascent_offsets speed max_y ! k = max (max_y - (int k + 1) * speed) 0"
  by (simp add: ascent_offsets_def)

lemma descent_offsets_nonempty:
  "0 < speed \<Longrightarrow> 0 < max_y \<Longrightarrow> descent_offsets speed max_y \<noteq> []"
  using ceil_div_pos(1) [of speed max_y] by (simp add: descent_offsets_def)

lemma ascent_offsets_nonempty:
  "0 < speed \<Longrightarrow> 0 < max_y \<Longrightarrow> ascent_offsets speed max_y \<noteq> []"
  using ceil_div_pos(1) [of speed max_y] by (simp add: ascent_offsets_def)

lemma descent_offsets_range:
  assumes "0 < speed" "0 < max_y"
  shows "list_all (\<lambda>y. 0 < y \<and> y \<le> max_y) (descent_offsets speed max_y)"
proof -
  have "0 < (int k + 1) * speed" for k using assms(1) by simp
  then show ?thesis using assms(2) by (simp add: descent_offsets_def list_all_iff)
qed

lemma ascent_offsets_range:
  assumes "0 < speed" "0 < max_y"
  shows "list_all (\<lambda>y. 0 \<le> y \<and> y < max_y) (ascent_offsets speed max_y)"
proof -
  have "0 < (int k + 1) * speed" for k using assms(1) by simp
  then have "max_y - (int k + 1) * speed < max_y" for k by simp
  then show ?thesis using assms(2) by (simp add: ascent_offsets_def list_all_iff)
qed

lemma last_descent_offsets:
  assumes "0 < speed" "0 < max_y"
  shows "last (descent_offsets speed max_y) = max_y"
proof -
  define n where "n = nat ((max_y + speed - 1) div speed)"
  have n0: "0 < n" using ceil_div_pos(1) [OF assms] by (simp add: n_def)
  have "int n = (max_y + speed - 1) div speed" using ceil_div_pos(1) [OF assms] by (simp add: n_def)
  then have ge: "max_y \<le> int n * speed" using ceil_div_pos(2) [OF assms] by simp
  have "last (descent_offsets speed max_y) = descent_offsets speed max_y ! (n - 1)"
    using n0 by (simp add: last_conv_nth descent_offsets_def n_def)
  also have "\<dots> = min ((int (n - 1) + 1) * speed) max_y"
    using n0 by (intro descent_offsets_nth) (simp add: length_descent_offsets n_def)
  also have "int (n - 1) + 1 = int n" using n0 by simp
  finally show ?thesis using ge by simp
qed

lemma last_ascent_offsets:
  assumes "0 < speed" "0 < max_y"
  shows "last (ascent_offsets speed max_y) = 0"
proof -
  define n where "n = nat ((max_y + speed - 1) div speed)"
  have n0: "0 < n" using ceil_div_pos(1) [OF assms] by (simp add: n_def)
  have "int n = (max_y + speed - 1) div speed" using ceil_div_pos(1) [OF assms] by (simp add: n_def)
  then have ge: "max_y \<le> int n * speed" using ceil_div_pos(2) [OF assms] by simp
  have "last (ascent_offsets speed max_y) = ascent_offsets speed max_y ! (n - 1)"
    using n0 by (simp add: last_conv_nth ascent_offsets_def n_def)
  also have "\<dots> = max (max_y - (int (n - 1) + 1) * speed) 0"
    using n0 by (intro ascent_offsets_nth) (simp add: length_ascent_offsets n_def)
  also have "int (n - 1) + 1 = int n" using n0 by simp
  finally show ?thesis using ge by simp
qed

lemma box_top_window_at: "box_top (window_at scaled ow wh y) = y"
  by (simp add: window_at_def)

lemma map_box_top_windows: "map box_top (windows scaled ow wh ys) = ys"
  by (simp add: windows_def box_top_window_at comp_def)

lemma windows_append: "windows scaled ow wh (xs @ ys) = windows scaled ow wh xs @ windows scaled ow wh ys"
  by (simp add: windows_def)

lemma windows_replicate:
  "windows scaled ow wh (replicate n y) = replicate n (window_at scaled ow wh y)"
  by (simp add: windows_def)

lemma length_windows: "length (windows scaled ow wh ys) = length ys"
  by (simp add: windows_def)

lemma scroll_down_from_top:
  assumes "0 < speed" "0 < max_y" "0 \<le> ow" "0 \<le> wh" "max_y \<le> img_height scaled"
  shows "scroll_down scaled ow wh speed max_y 0 fs =
           Some (Inr (max_y, fs @ windows scaled ow wh (descent_offsets speed max_y)))"
  using scroll_down_closed [of speed 0 max_y ow wh scaled fs] assms
  by (simp add: windows_def descent_offsets_def comp_def)

lemma scroll_up_from_bottom:
  assumes "0 < speed" "0 < max_y" "0 \<le> ow" "0 \<le> wh" "max_y \<le> img_height scaled"
  shows "scroll_up scaled ow wh speed max_y fs =
           Some (Inr (0, fs @ windows scaled ow wh (ascent_offsets speed max_y)))"
  using scroll_up_closed [of speed max_y scaled ow wh fs] assms
  by (simp add: windows_def ascent_offsets_def comp_def)

text \<open>The schedule before the watermark pass, by scroll mode.\<close>

lemma generate_frames_scrolling:
  assumes sc: "scaled_image g = Some scaled"
    and wh: "window_height g = Some wh"
    and gt: "wh < img_height scaled"
    and sp: "0 < scroll_speed (config g)"
    and pf: "pause_frames (config g) = Inr pf"
    and w0: "0 \<le> wh" and o0: "0 \<le> output_width (config g)"
  shows "generate_frames g =
     Some (Inr (finish_frames g
       (if scroll_mode (config g) = ''down-up''
        then windows scaled (output_width (config g)) wh
               (replicate (nat pf) 0
                @ descent_offsets (scroll_speed (config g)) (img_height scaled - wh)
                @ replicate (nat pf) (img_height scaled - wh)
                @ ascent_offsets (scroll_speed (config g)) (img_height scaled - wh))
        else if scroll_mode (config g) = ''down-once''
        then py_slice_to
               (windows scaled (output_width (config g)) wh
                  (replicate (nat pf) 0
                   @ descent_offsets (scroll_speed (config g)) (img_height scaled - wh)
                   @ replicate (nat pf) (img_height scaled - wh)))
               (- pf)
        else windows scaled (output_width (config g)) wh
               (replicate (nat pf) 0
                @ descent_offsets (scroll_speed (config g)) (img_height scaled - wh)
                @ replicate (nat pf) (img_height scaled - wh)))))"
proof -
  have m: "0 < img_height scaled - wh" using gt by simp
  have ms: "img_height scaled - wh \<le> img_height scaled" using w0 by simp
  have nle: "\<not> img_height scaled \<le> wh" using gt by simp
  have t: "crop_safe scaled (output_width (config g)) 0 wh
             = Inr (window_at scaled (output_width (config g)) wh 0)"
    using o0 w0 gt by (intro crop_safe_window) simp_all
  have b: "crop_safe scaled (output_width (config g)) (img_height scaled - wh) wh
             = Inr (window_at scaled (output_width (config g)) wh (img_height scaled - wh))"
    using o0 w0 by (intro crop_safe_window) simp_all
  show ?thesis
    unfolding generate_frames_def
    by (simp add: sc wh nle pf t b Let_def scroll_down_from_top [OF sp m o0 w0 ms]
        scroll_up_from_bottom [OF sp m o0 w0 ms] windows_append windows_replicate)
qed

lemma generate_frames_static:
  assumes sc: "scaled_image g = Some scaled"
    and wh: "window_height g = Some wh"
    and le: "img_height scaled \<le> wh"
    and pf: "pause_frames (config g) = Inr pf"
  shows "generate_frames g =
     (case crop_safe scaled (output_width (config g)) 0 wh of
        Inl e \<Rightarrow> Some (Inl e)
      | Inr frame \<Rightarrow> Some (Inr (g\<lparr>frames := replicate (nat (max pf 30)) frame\<rparr>)))"
  unfolding generate_frames_def by (simp add: sc wh le pf Let_def split: sum.splits)

lemma frames_finish_frames:
  "map box_top (frames (finish_frames g fs)) = map box_top fs"
  "length (frames (finish_frames g fs)) = length fs"
  by (simp_all add: finish_frames_def add_watermark_to_frames_def comp_def)

text \<open>\<^verbatim>\<open>int(pause_duration * framerate)\<close> when the frame rate and the product are
  binary64 values: the product, truncated toward zero.\<close>

lemma pause_frames_dyadic:
  assumes "\<bar>framerate c\<bar> < 2 ^ 53"
    and "pause_duration c * of_int (framerate c) = of_int m / 2 ^ k"
    and "\<bar>m\<bar> < 2 ^ 53" "k \<le> 1074"
  shows "pause_frames c = Inr (py_int_of_float (of_int m / 2 ^ k))"
  using assms(2) by (simp add: pause_frames_def to_double_of_int [OF assms(1)] py_fmul_def
      to_double_dyadic [OF assms(3,4)])

lemma windows_py_slice_to:
  "py_slice_to (windows scaled ow wh ys) n = windows scaled ow wh (py_slice_to ys n)"
  by (simp add: py_slice_to_def windows_def take_map)

lemma generate_frames_schedule:
  assumes "scaled_image g = Some scaled" and "window_height g = Some wh"
    and "wh < img_height scaled" and "0 < scroll_speed (config g)"
    and "pause_frames (config g) = Inr pf"
    and "0 \<le> wh" and "0 \<le> output_width (config g)"
  shows "generate_frames g =
     Some (Inr (finish_frames g
       (windows scaled (output_width (config g)) wh
          (scroll_schedule (scroll_mode (config g)) (scroll_speed (config g))
             (img_height scaled - wh) pf))))"
  unfolding generate_frames_scrolling [OF assms]
  by (simp add: scroll_schedule_def windows_py_slice_to)

lemma frame_count_offsets: "frame_count r = map_option length (frame_offsets r)"
  by (simp add: frame_count_def frame_offsets_def option.map_comp comp_def)

lemma frame_offsets_scrolling:
  assumes "scaled_image g = Some scaled" and "window_height g = Some wh"
    and "wh < img_height scaled" and "0 < scroll_speed (config g)"
    and "pause_frames (config g) = Inr pf"
    and "0 \<le> wh" and "0 \<le> output_width (config g)"
  shows "frame_offsets (generate_frames g) =
     Some (scroll_schedule (scroll_mode (config g)) (scroll_speed (config g))
             (img_height scaled - wh) pf)"
  unfolding generate_frames_schedule [OF assms]
  by (simp add: frame_offsets_def frames_of_def frames_finish_frames map_box_top_windows)

lemma scroll_schedule_range:
  assumes "0 < speed" "0 < max_y"
  shows "list_all (\<lambda>y. 0 \<le> y \<and> y \<le> max_y) (scroll_schedule mode speed max_y pf)"
proof -
  note d = descent_offsets_range [OF assms]
  note a = ascent_offsets_range [OF assms]
  define down where "down = replicate (nat pf) 0 @ descent_offsets speed max_y
                            @ replicate (nat pf) max_y"
  have dn: "list_all (\<lambda>y. 0 \<le> y \<and> y \<le> max_y) down"
    using d assms(2) by (auto simp: down_def list_all_iff)
  have up: "list_all (\<lambda>y. 0 \<le> y \<and> y \<le> max_y) (down @ ascent_offsets speed max_y)"
    using dn a by (auto simp: list_all_iff)
  have sl: "list_all (\<lambda>y. 0 \<le> y \<and> y \<le> max_y) (py_slice_to down (- pf))"
    using dn by (auto simp: py_slice_to_def list_all_iff dest: in_set_takeD)
  show ?thesis using dn up sl by (simp add: scroll_schedule_def down_def)
qed

section \<open>The examples, evaluated\<close>

lemma to_double_numeral:
  "(numeral n :: int) < 2 ^ 53 \<Longrightarrow> to_double (numeral n) = Inr (numeral n)"
  using to_double_of_int [of "numeral n"] by simp

lemma to_double_one: "to_double 1 = Inr 1"
  using to_double_of_int [of 1] by simp

lemma to_double_zero: "to_double 0 = Inr 0"
  using to_double_of_int [of 0] by simp

lemmas py_int_simps =
  py_int_def py_strip_def is_space_def py_int_digits_def is_digit_def digits_value_def
  digit_val_def

lemma pause_frames_example:
  "framerate c = 24 \<Longrightarrow> pause_duration c = 2 \<Longrightarrow> pause_frames c = Inr 48"
  by (simp add: pause_frames_def py_fmul_def to_double_numeral py_int_of_float_def)

lemma pause_frames_zero:
  "framerate c = 24 \<Longrightarrow> pause_duration c = 0 \<Longrightarrow> pause_frames c = Inr 0"
  by (simp add: pause_frames_def py_fmul_def to_double_numeral to_double_zero py_int_of_float_def)

lemma calculate_dimensions_example:
  assumes "aspect_ratio c = ''16:9''" "output_width c = 800"
  shows "calculate_dimensions \<lparr>config = c, source_img = s, scaled_image = None,
            window_height = None, frames = []\<rparr>
         = Inr \<lparr>config = c, source_img = s, scaled_image = None,
            window_height = Some 450, frames = []\<rparr>"
proof -
  have "py_int_truediv (800 * 9) 16 = Inr ((800 * 9) div 16)"
    by (rule py_int_truediv_floor) simp_all
  then show ?thesis
    by (simp add: calculate_dimensions_def assms ratio_height_def ratio_token_def py_int_simps)
qed

lemma preprocess_image_example:
  assumes "output_width c = 800" "quality_factor c = 1" "1 \<le> h" "h < 2 ^ 53"
  shows "preprocess_image \<lparr>config = c, source_img = Some \<lparr>img_width = 800, img_height = h\<rparr>,
            scaled_image = None, window_height = Some 450, frames = []\<rparr>
         = Inr (example_generator c h)"
proof -
  have "to_double (of_int h) = Inr (of_int h)" using assms(3,4) by (intro to_double_of_int) simp
  then show ?thesis
    using assms(3)
    by (simp add: preprocess_image_def assms(1,2) py_truediv_def py_fmul_def scaled_size_def
        py_imul_def to_double_numeral to_double_one py_int_of_float_def resize_def
        reconcile_window_def example_generator_def)
qed

lemma schedule_example:
  assumes "source_image c = ''long.png''" "aspect_ratio c = ''16:9''" "output_width c = 800"
    "quality_factor c = 1"
  shows "schedule example_files c = generate_frames (example_generator c 3000)"
  using preprocess_image_example [of c 3000] calculate_dimensions_example [of c]
  by (simp add: schedule_def load_image_def new_generator_def example_files_def assms)

lemma schedule_short_example:
  assumes "source_image c = ''short.png''" "aspect_ratio c = ''16:9''" "output_width c = 800"
    "quality_factor c = 1"
  shows "schedule example_files c = generate_frames (example_generator c 300)"
  using preprocess_image_example [of c 300] calculate_dimensions_example [of c]
  by (simp add: schedule_def load_image_def new_generator_def example_files_def assms)

lemma example_generator_simps:
  "scaled_image (example_generator c h) = Some \<lparr>img_width = 800, img_height = h\<rparr>"
  "window_height (example_generator c h) = Some 450"
  "config (example_generator c h) = c"
  by (simp_all add: example_generator_def)

lemma frame_offsets_example:
  assumes "0 < scroll_speed c" and "pause_frames c = Inr pf" and "450 < h"
    and "0 \<le> output_width c"
  shows "frame_offsets (generate_frames (example_generator c h)) =
     Some (scroll_schedule (scroll_mode c) (scroll_speed c) (h - 450) pf)"
  using frame_offsets_scrolling
    [of "example_generator c h" "\<lparr>img_width = 800, img_height = h\<rparr>" 450 pf] assms
  by (simp add: example_generator_simps)

section \<open>Claims about the frame scheduler\<close>

text \<open>
  C1. Let the scroll speed be positive, the scaled image taller than the window
  (\<open>max_y = scaled height - window height > 0\<close>), and the window height and output
  width non-negative, so that no crop raises. Then \<^verbatim>\<open>generate_frames\<close> returns, and its
  frames are the windows at the offsets of \<open>scroll_schedule\<close>: the top hold at 0, the
  descent at \<open>min ((k + 1) * speed) max_y\<close> for \<open>k = 0, 1, \<dots>\<close>, the bottom hold at
  \<open>max_y\<close>, and what the scroll mode adds or removes. The descent loop itself,
  started at 0, returns at \<open>max_y\<close> with exactly those windows appended. The descent
  has at least one offset, each lies in \<open>(0, max_y]\<close>, the last is \<open>max_y\<close> whether
  or not the speed divides it, and every offset of the finished schedule lies in
  \<open>[0, max_y]\<close>.
\<close>

theorem descent_offsets_within_bounds:
  assumes "scaled_image g = Some scaled" and "window_height g = Some wh"
    and "0 \<le> wh" and "0 \<le> output_width (config g)"
    and "max_y = img_height scaled - wh" and "0 < max_y"
    and "speed = scroll_speed (config g)" and "0 < speed"
    and "pause_frames (config g) = Inr pf"
  shows "generate_frames g =
           Some (Inr (finish_frames g
             (windows scaled (output_width (config g)) wh
                (scroll_schedule (scroll_mode (config g)) speed max_y pf))))
       \<and> frame_offsets (generate_frames g)
           = Some (scroll_schedule (scroll_mode (config g)) speed max_y pf)
       \<and> scroll_down scaled (output_width (config g)) wh speed max_y 0 tops
           = Some (Inr (max_y, tops @ windows scaled (output_width (config g)) wh
                                        (descent_offsets speed max_y)))
       \<and> descent_offsets speed max_y \<noteq> []
       \<and> last (descent_offsets speed max_y) = max_y
       \<and> list_all (\<lambda>y. 0 < y \<and> y \<le> max_y) (descent_offsets speed max_y)
       \<and> (\<forall>k < length (descent_offsets speed max_y).
            descent_offsets speed max_y ! k = min ((int k + 1) * speed) max_y)
       \<and> list_all (\<lambda>y. 0 \<le> y \<and> y \<le> max_y)
            (scroll_schedule (scroll_mode (config g)) speed max_y pf)"
proof -
  have gt: "wh < img_height scaled" using assms(5,6) by simp
  have sp: "0 < scroll_speed (config g)" using assms(7,8) by simp
  have ms: "max_y \<le> img_height scaled" using assms(3,5) by simp
  have "generate_frames g =
           Some (Inr (finish_frames g
             (windows scaled (output_width (config g)) wh
                (scroll_schedule (scroll_mode (config g)) speed max_y pf))))"
    using generate_frames_schedule [OF assms(1,2) gt sp assms(9,3,4)]
    by (simp add: assms(5) [symmetric] assms(7) [symmetric])
  moreover have "frame_offsets (generate_frames g)
           = Some (scroll_schedule (scroll_mode (config g)) speed max_y pf)"
    using frame_offsets_scrolling [OF assms(1,2) gt sp assms(9,3,4)]
    by (simp add: assms(5) [symmetric] assms(7) [symmetric])
  ultimately show ?thesis
    using scroll_down_from_top [OF assms(8,6,4,3) ms]
      descent_offsets_nonempty [OF assms(8,6)] last_descent_offsets [OF assms(8,6)]
      descent_offsets_range [OF assms(8,6)] descent_offsets_nth
      scroll_schedule_range [OF assms(8,6)]
    by simp
qed

theorem descent_offsets_within_bounds_witness:
  "pause_frames (example_config\<lparr>scroll_speed := 1000, pause_duration := 0\<rparr>) = Inr 0
   \<and> frame_offsets (generate_frames
        (example_generator (example_config\<lparr>scroll_speed := 1000, pause_duration := 0\<rparr>) 3000))
       = Some [1000, 2000, 2550]
   \<and> descent_offsets 1000 2550 \<noteq> []
   \<and> last (descent_offsets 1000 2550) = 2550"
proof -
  let ?c = "example_config\<lparr>scroll_speed := 1000, pause_duration := 0\<rparr>"
  let ?g = "example_generator ?c 3000"
  let ?s = "\<lparr>img_width = 800, img_height = 3000\<rparr>"
  have h1: "scaled_image ?g = Some ?s" and h2: "window_height ?g = Some 450"
    by (simp_all add: example_generator_simps)
  have w0: "(0::int) \<le> 450" by simp
  have o0: "0 \<le> output_width (config ?g)"
    by (simp add: example_generator_simps example_config_def)
  have h3: "(2550::int) = img_height ?s - 450" and h4: "(0::int) < 2550" by simp_all
  have h5: "(1000::int) = scroll_speed (config ?g)" and h6: "(0::int) < 1000"
    by (simp_all add: example_generator_simps example_config_def)
  have pf: "pause_frames (config ?g) = Inr 0"
    by (rule pause_frames_zero) (simp_all add: example_generator_simps example_config_def)
  note t = descent_offsets_within_bounds [OF h1 h2 w0 o0 h3 h4 h5 h6 pf, of "[]"]
  have m: "scroll_mode (config ?g) = ''down''"
    by (simp add: example_generator_simps example_config_def)
  have d: "descent_offsets 1000 2550 = [1000, 2000, 2550]"
    by (simp add: descent_offsets_def upt_rec)
  have "frame_offsets (generate_frames ?g) = Some [1000, 2000, 2550]"
    using t [THEN conjunct2, THEN conjunct1] by (simp add: m scroll_schedule_def d)
  then show ?thesis using t pf by (simp add: example_generator_simps)
qed

text \<open>
  C2 as stated fails: the pause frame count is \<^verbatim>\<open>int(pause_duration * framerate)\<close>,
  which truncates. With a picture shorter than the window, pause 1.28125 s and 24 frames
  per second the product is 30.75: the code emits 30 frames, the rounded count gives 31.
\<close>

theorem static_frame_count_counterexample:
  "frame_count (schedule example_files
      (example_config\<lparr>source_image := ''short.png'', pause_duration := 41 / 32\<rparr>)) = Some 30
   \<and> max (round (41 / 32 * (24 :: rat))) 30 = (31 :: int)"
proof -
  let ?c = "example_config\<lparr>source_image := ''short.png'', pause_duration := 41 / 32\<rparr>"
  have "pause_frames ?c = Inr (py_int_of_float (of_int 123 / 2 ^ 2))"
    by (rule pause_frames_dyadic) (simp_all add: example_config_def)
  then have pf: "pause_frames (config (example_generator ?c 300)) = Inr 30"
    by (simp add: py_int_of_float_def example_generator_simps floor_rat_numeral)
  have "schedule example_files ?c = generate_frames (example_generator ?c 300)"
    by (rule schedule_short_example) (simp_all add: example_config_def)
  moreover have "crop_safe \<lparr>img_width = 800, img_height = 300\<rparr> 800 0 450
      = Inr (window_at \<lparr>img_width = 800, img_height = 300\<rparr> 800 450 0)"
    by (rule crop_safe_window) simp_all
  ultimately have "frame_count (schedule example_files ?c) = Some 30"
    using generate_frames_static
      [of "example_generator ?c 300" "\<lparr>img_width = 800, img_height = 300\<rparr>" 450 30,
       OF _ _ _ pf]
    by (simp add: example_generator_simps example_config_def frame_count_def frames_of_def)
  moreover have "round (41 / 32 * (24 :: rat)) = 31" by (simp add: round_rat_numeral)
  ultimately show ?thesis by simp
qed

text \<open>
  C2, amended. When the scaled image is no taller than the window, the scheduler cuts the
  window at offset 0 and, unless that crop raises, emits exactly \<open>max pf 30\<close> copies of
  it, where \<open>pf\<close> is \<^verbatim>\<open>int(pause_duration * framerate)\<close>: the binary64 product
  truncated toward zero (not rounded; a negative value is not raised to 0, the maximum
  with 30 hides it). The crop does not raise when the output width and the scaled height
  are non-negative. The scrolling path has no such floor: the example with speed 3000
  and no pause yields a single frame.
\<close>

theorem static_image_frame_count:
  assumes "scaled_image g = Some scaled" and "window_height g = Some wh"
    and "img_height scaled \<le> wh"
    and "to_double (of_int (framerate (config g))) = Inr fr"
    and "py_fmul (pause_duration (config g)) fr = Inr p"
  shows "generate_frames g =
           (case crop_safe scaled (output_width (config g)) 0 wh of
              Inl e \<Rightarrow> Some (Inl e)
            | Inr frame \<Rightarrow>
                Some (Inr (g\<lparr>frames := replicate (nat (max (py_int_of_float p) 30)) frame\<rparr>)))
       \<and> (0 \<le> output_width (config g) \<and> 0 \<le> img_height scaled \<longrightarrow>
            crop_safe scaled (output_width (config g)) 0 wh
              = Inr (window_at scaled (output_width (config g)) wh 0)
            \<and> generate_frames g =
                Some (Inr (g\<lparr>frames := replicate (nat (max (py_int_of_float p) 30))
                                          (window_at scaled (output_width (config g)) wh 0)\<rparr>))
            \<and> frame_count (generate_frames g) = Some (nat (max (py_int_of_float p) 30)))
       \<and> py_int_of_float p = (if 0 \<le> p then \<lfloor>p\<rfloor> else \<lceil>p\<rceil>)
       \<and> box_top (window_at scaled (output_width (config g)) wh 0) = 0
       \<and> frame_count (schedule example_files
            (example_config\<lparr>scroll_speed := 3000, pause_duration := 0\<rparr>)) = Some 1"
proof -
  have pf: "pause_frames (config g) = Inr (py_int_of_float p)"
    by (simp add: pause_frames_def assms(4,5))
  note s = generate_frames_static [OF assms(1,2,3) pf]
  have ok: "crop_safe scaled (output_width (config g)) 0 wh
              = Inr (window_at scaled (output_width (config g)) wh 0)"
    if "0 \<le> output_width (config g)" "0 \<le> img_height scaled"
    using that assms(3) by (intro crop_safe_window) simp_all
  let ?c = "example_config\<lparr>scroll_speed := 3000, pause_duration := 0\<rparr>"
  have pf0: "pause_frames ?c = Inr 0"
    by (rule pause_frames_zero) (simp_all add: example_config_def)
  have v: "0 < scroll_speed ?c" "0 \<le> output_width ?c" by (simp_all add: example_config_def)
  have "schedule example_files ?c = generate_frames (example_generator ?c 3000)"
    by (rule schedule_example) (simp_all add: example_config_def)
  then have "frame_count (schedule example_files ?c) = Some 1"
    using frame_offsets_example [OF v(1) pf0 _ v(2), of 3000]
    by (simp add: frame_count_offsets example_config_def scroll_schedule_def
        length_descent_offsets)
  then show ?thesis
    using ok by (simp add: s frame_count_def frames_of_def box_top_window_at py_int_of_float_def)
qed

theorem static_image_frame_count_witness:
  "to_double (of_int (framerate example_config)) = Inr 24
   \<and> py_fmul (pause_duration example_config) 24 = Inr 48
   \<and> frame_count (generate_frames
        (example_generator (example_config\<lparr>source_image := ''short.png''\<rparr>) 300)) = Some 48"
proof -
  let ?c = "example_config\<lparr>source_image := ''short.png''\<rparr>"
  let ?g = "example_generator ?c 300"
  let ?s = "\<lparr>img_width = 800, img_height = 300\<rparr>"
  have h1: "scaled_image ?g = Some ?s" and h2: "window_height ?g = Some 450"
    and h3: "img_height ?s \<le> 450"
    by (simp_all add: example_generator_simps)
  have h4: "to_double (of_int (framerate (config ?g))) = Inr 24"
    by (simp add: example_generator_simps example_config_def to_double_numeral)
  have h5: "py_fmul (pause_duration (config ?g)) 24 = Inr 48"
    by (simp add: example_generator_simps example_config_def py_fmul_def to_double_numeral)
  have h6: "0 \<le> output_width (config ?g) \<and> 0 \<le> img_height ?s"
    by (simp add: example_generator_simps example_config_def)
  note t = static_image_frame_count [OF h1 h2 h3 h4 h5]
  have pi: "py_int_of_float 48 = 48" by (simp add: py_int_of_float_def)
  have "frame_count (generate_frames ?g) = Some 48"
    using t [THEN conjunct2, THEN conjunct1, rule_format, OF h6, THEN conjunct2,
        THEN conjunct2]
    by (simp add: pi)
  then show ?thesis using h4 h5
    by (simp add: example_generator_simps example_config_def)
qed

text \<open>
  What single-pass mode does for a positive pause count: the slice
  \<^verbatim>\<open>self.frames[:-pause_frames]\<close> removes the bottom hold and nothing else, so the
  schedule is the top hold followed by the descent and ends at \<open>max_y\<close>.
\<close>

lemma down_once_positive_pause:
  assumes "scaled_image g = Some scaled" and "window_height g = Some wh"
    and "wh < img_height scaled" and "0 < scroll_speed (config g)"
    and "pause_frames (config g) = Inr pf"
    and "0 \<le> wh" and "0 \<le> output_width (config g)" and "0 < pf"
    and "scroll_mode (config g) = ''down-once''"
  shows "frame_offsets (generate_frames g) =
           Some (replicate (nat pf) 0
                 @ descent_offsets (scroll_speed (config g)) (img_height scaled - wh))"
  unfolding frame_offsets_scrolling [OF assms(1-7)]
  using assms(8) by (simp add: assms(9) scroll_schedule_def py_slice_to_def)

text \<open>
  C3 fails on the code at pause count 0: \<^verbatim>\<open>self.frames[:-0]\<close> is
  \<^verbatim>\<open>self.frames[:0]\<close>, the empty list. On the end-to-end example with pause 0.0 the
  mode down yields the 319 descent frames; the mode down-once yields no frame at all, and
  the run then fails in \<^verbatim>\<open>save_output\<close>.
\<close>

theorem down_once_zero_pause_drops_all_frames:
  "frame_count (schedule example_files (example_config\<lparr>pause_duration := 0\<rparr>)) = Some 319
   \<and> frame_count (schedule example_files
         (example_config\<lparr>scroll_mode := ''down-once'', pause_duration := 0\<rparr>)) = Some 0
   \<and> run example_files True
         (example_config\<lparr>scroll_mode := ''down-once'', pause_duration := 0\<rparr>) = Some False"
proof -
  let ?c = "example_config\<lparr>pause_duration := 0\<rparr>"
  let ?d = "example_config\<lparr>scroll_mode := ''down-once'', pause_duration := 0\<rparr>"
  have pc: "pause_frames ?c = Inr 0" and pd: "pause_frames ?d = Inr 0"
    by (rule pause_frames_zero; simp add: example_config_def)+
  have vc: "0 < scroll_speed ?c" and vd: "0 < scroll_speed ?d"
    and oc: "0 \<le> output_width ?c" and od: "0 \<le> output_width ?d"
    by (simp_all add: example_config_def)
  have sc: "schedule example_files ?c = generate_frames (example_generator ?c 3000)"
    and sd: "schedule example_files ?d = generate_frames (example_generator ?d 3000)"
    by (rule schedule_example; simp add: example_config_def)+
  have "frame_count (schedule example_files ?c) = Some 319"
    unfolding sc frame_count_offsets
    using frame_offsets_example [OF vc pc _ oc, of 3000]
    by (simp add: example_config_def scroll_schedule_def length_descent_offsets)
  moreover have fd: "frame_count (schedule example_files ?d) = Some 0"
    unfolding sd frame_count_offsets
    using frame_offsets_example [OF vd pd _ od, of 3000]
    by (simp add: example_config_def scroll_schedule_def py_slice_to_def)
  moreover have "run example_files True ?d = Some False"
    using fd by (auto simp add: run_def save_output_def frame_count_def frames_of_def
        split: option.splits sum.splits)
  ultimately show ?thesis by simp
qed

text \<open>
  C4. In round-trip mode (\<open>''down-up''\<close>), with a positive speed, a scaled image
  taller than the window, and a non-negative window height and output width (so that no
  crop raises), the schedule is the top hold, the descent, the bottom hold and
  then the ascent at the offsets \<open>max (max_y - (k + 1) * speed) 0\<close>; the ascent is not
  empty, nothing follows it, and the last offset is 0. On the end-to-end example the
  mode down yields 415 frames and the mode down-up 734.
\<close>

theorem round_trip_returns_to_top:
  "(\<forall>g scaled wh pf.
      scaled_image g = Some scaled \<and> window_height g = Some wh \<and> wh < img_height scaled
      \<and> 0 \<le> wh \<and> 0 \<le> output_width (config g)
      \<and> 0 < scroll_speed (config g) \<and> pause_frames (config g) = Inr pf
      \<and> scroll_mode (config g) = ''down-up'' \<longrightarrow>
      frame_offsets (generate_frames g) =
        Some (replicate (nat pf) 0
              @ descent_offsets (scroll_speed (config g)) (img_height scaled - wh)
              @ replicate (nat pf) (img_height scaled - wh)
              @ ascent_offsets (scroll_speed (config g)) (img_height scaled - wh))
      \<and> ascent_offsets (scroll_speed (config g)) (img_height scaled - wh) \<noteq> []
      \<and> (\<forall>k < length (ascent_offsets (scroll_speed (config g)) (img_height scaled - wh)).
            ascent_offsets (scroll_speed (config g)) (img_height scaled - wh) ! k
              = max (img_height scaled - wh - (int k + 1) * scroll_speed (config g)) 0)
      \<and> last (replicate (nat pf) 0
              @ descent_offsets (scroll_speed (config g)) (img_height scaled - wh)
              @ replicate (nat pf) (img_height scaled - wh)
              @ ascent_offsets (scroll_speed (config g)) (img_height scaled - wh)) = 0)
   \<and> frame_count (schedule example_files example_config) = Some 415
   \<and> frame_count (schedule example_files (example_config\<lparr>scroll_mode := ''down-up''\<rparr>))
       = Some 734"
proof -
  have general: "frame_offsets (generate_frames g) =
        Some (replicate (nat pf) 0
              @ descent_offsets (scroll_speed (config g)) (img_height scaled - wh)
              @ replicate (nat pf) (img_height scaled - wh)
              @ ascent_offsets (scroll_speed (config g)) (img_height scaled - wh))
      \<and> ascent_offsets (scroll_speed (config g)) (img_height scaled - wh) \<noteq> []
      \<and> (\<forall>k < length (ascent_offsets (scroll_speed (config g)) (img_height scaled - wh)).
            ascent_offsets (scroll_speed (config g)) (img_height scaled - wh) ! k
              = max (img_height scaled - wh - (int k + 1) * scroll_speed (config g)) 0)
      \<and> last (replicate (nat pf) 0
              @ descent_offsets (scroll_speed (config g)) (img_height scaled - wh)
              @ replicate (nat pf) (img_height scaled - wh)
              @ ascent_offsets (scroll_speed (config g)) (img_height scaled - wh)) = 0"
    if h: "scaled_image g = Some scaled" "window_height g = Some wh" "wh < img_height scaled"
      "0 < scroll_speed (config g)" "pause_frames (config g) = Inr pf"
      "0 \<le> wh" "0 \<le> output_width (config g)"
      "scroll_mode (config g) = ''down-up''"
    for g scaled wh pf
  proof -
    have m: "0 < img_height scaled - wh" using h(3) by simp
    note ne = ascent_offsets_nonempty [OF h(4) m]
    have "frame_offsets (generate_frames g) =
        Some (replicate (nat pf) 0
              @ descent_offsets (scroll_speed (config g)) (img_height scaled - wh)
              @ replicate (nat pf) (img_height scaled - wh)
              @ ascent_offsets (scroll_speed (config g)) (img_height scaled - wh))"
      unfolding frame_offsets_scrolling [OF h(1-7)] by (simp add: h(8) scroll_schedule_def)
    then show ?thesis
      using ne last_ascent_offsets [OF h(4) m] ascent_offsets_nth by simp
  qed
  let ?c = "example_config"
  let ?d = "example_config\<lparr>scroll_mode := ''down-up''\<rparr>"
  have pc: "pause_frames ?c = Inr 48" and pd: "pause_frames ?d = Inr 48"
    by (rule pause_frames_example; simp add: example_config_def)+
  have vc: "0 < scroll_speed ?c" and vd: "0 < scroll_speed ?d"
    and oc: "0 \<le> output_width ?c" and od: "0 \<le> output_width ?d"
    by (simp_all add: example_config_def)
  have sc: "schedule example_files ?c = generate_frames (example_generator ?c 3000)"
    and sd: "schedule example_files ?d = generate_frames (example_generator ?d 3000)"
    by (rule schedule_example; simp add: example_config_def)+
  have "frame_count (schedule example_files ?c) = Some 415"
    unfolding sc frame_count_offsets
    using frame_offsets_example [OF vc pc _ oc, of 3000]
    by (simp add: example_config_def scroll_schedule_def length_descent_offsets)
  moreover have "frame_count (schedule example_files ?d) = Some 734"
    unfolding sd frame_count_offsets
    using frame_offsets_example [OF vd pd _ od, of 3000]
    by (simp add: example_config_def scroll_schedule_def length_descent_offsets
        length_ascent_offsets)
  ultimately show ?thesis using general by blast
qed

theorem round_trip_returns_to_top_witness:
  "pause_frames (example_config\<lparr>scroll_speed := 1000, scroll_mode := ''down-up'',
                                 pause_duration := 0\<rparr>) = Inr 0
   \<and> frame_offsets (generate_frames (example_generator
        (example_config\<lparr>scroll_speed := 1000, scroll_mode := ''down-up'',
                         pause_duration := 0\<rparr>) 3000))
       = Some [1000, 2000, 2550, 1550, 550, 0]"
proof -
  let ?c = "example_config\<lparr>scroll_speed := 1000, scroll_mode := ''down-up'',
                            pause_duration := 0\<rparr>"
  let ?g = "example_generator ?c 3000"
  let ?s = "\<lparr>img_width = 800, img_height = 3000\<rparr>"
  have pf: "pause_frames (config ?g) = Inr 0"
    by (rule pause_frames_zero) (simp_all add: example_generator_simps example_config_def)
  have h: "scaled_image ?g = Some ?s \<and> window_height ?g = Some 450 \<and> 450 < img_height ?s
      \<and> (0::int) \<le> 450 \<and> 0 \<le> output_width (config ?g)
      \<and> 0 < scroll_speed (config ?g) \<and> pause_frames (config ?g) = Inr 0
      \<and> scroll_mode (config ?g) = ''down-up''"
    using pf by (simp add: example_generator_simps example_config_def)
  have d: "descent_offsets 1000 2550 = [1000, 2000, 2550]"
    and a: "ascent_offsets 1000 2550 = [1550, 550, 0]"
    by (simp_all add: descent_offsets_def ascent_offsets_def upt_rec)
  from round_trip_returns_to_top [THEN conjunct1, rule_format, OF h, THEN conjunct1]
  have "frame_offsets (generate_frames ?g) = Some [1000, 2000, 2550, 1550, 550, 0]"
    by (simp add: example_generator_simps example_config_def d a)
  then show ?thesis using pf by (simp add: example_generator_simps)
qed

text \<open>
  A negative window height, as the token \<open>-16:9\<close> produces, makes the first crop
  raise: the run fails before any frame is scheduled.
\<close>

lemma negative_window_height_raises:
  "schedule example_files (example_config\<lparr>aspect_ratio := ''-16:9''\<rparr>) = Some (Inl CropError)"
proof -
  let ?c = "example_config\<lparr>aspect_ratio := ''-16:9''\<rparr>"
  have "to_double (of_int (- 450)) = Inr (of_int (- 450))"
    by (rule to_double_of_int) simp
  then have d: "py_int_truediv (800 * 9) (- 16) = Inr (- 450)"
    by (simp add: py_int_truediv_def py_truediv_def py_int_of_float_def)
  have c: "calculate_dimensions (new_generator ?c\<lparr>source_img :=
              Some \<lparr>img_width = 800, img_height = 3000\<rparr>\<rparr>)
           = Inr (new_generator ?c\<lparr>source_img := Some \<lparr>img_width = 800, img_height = 3000\<rparr>,
                                       window_height := Some (- 450)\<rparr>)"
    using d by (simp add: calculate_dimensions_def new_generator_def example_config_def
        ratio_height_def ratio_token_def py_int_simps)
  have p: "preprocess_image (new_generator ?c\<lparr>source_img :=
              Some \<lparr>img_width = 800, img_height = 3000\<rparr>, window_height := Some (- 450)\<rparr>)
           = Inr (new_generator ?c\<lparr>source_img := Some \<lparr>img_width = 800, img_height = 3000\<rparr>,
                    window_height := Some (- 450),
                    scaled_image := Some \<lparr>img_width = 800, img_height = 3000\<rparr>\<rparr>)"
    by (simp add: preprocess_image_def new_generator_def example_config_def py_truediv_def
        py_fmul_def scaled_size_def py_imul_def to_double_numeral to_double_one
        py_int_of_float_def resize_def reconcile_window_def)
  have pf: "pause_frames ?c = Inr 48"
    by (rule pause_frames_example) (simp_all add: example_config_def)
  have g: "generate_frames (new_generator ?c\<lparr>source_img :=
              Some \<lparr>img_width = 800, img_height = 3000\<rparr>, window_height := Some (- 450),
              scaled_image := Some \<lparr>img_width = 800, img_height = 3000\<rparr>\<rparr>)
           = Some (Inl CropError)"
    using pf by (simp add: generate_frames_def new_generator_def crop_safe_def Let_def)
  show ?thesis
    using c p g by (simp add: schedule_def load_image_def example_files_def)
       (simp add: new_generator_def example_config_def)
qed

section \<open>Claims about the geometry resolver\<close>

lemma py_split_no_sep: "sep \<notin> set s \<Longrightarrow> py_split sep s = [s]"
  by (induction s) auto

lemma py_split_one_sep:
  "sep \<notin> set a \<Longrightarrow> py_split sep (a @ sep # b) = a # py_split sep b"
  by (induction a) auto

lemma ratio_token_parts:
  assumes "CHR '':'' \<notin> set tw" "CHR '':'' \<notin> set th"
    and "py_int tw = Some w" "py_int th = Some h"
  shows "ratio_token (tw @ '':'' @ th) = Some (w, h)"
  using assms by (simp add: ratio_token_def py_split_one_sep py_split_no_sep)

lemma py_int_custom: "py_int ''custom'' = None"
  by (simp add: py_int_simps)

lemma ratio_token_custom: "ratio_token ''custom'' = None"
  by (simp add: ratio_token_def py_int_custom)

text \<open>A field followed by the control character U+001F is not an integer for
  \<^verbatim>\<open>int\<close>, so such a token does not unpack.\<close>

lemma ratio_token_control_char: "ratio_token (''4:3'' @ [CHR 0x1F]) = None"
  by (simp add: ratio_token_def py_int_simps)

lemma default_height_floor:
  "0 \<le> W \<Longrightarrow> W * 9 + 16 \<le> 2 ^ 53 \<Longrightarrow> default_height W = Inr ((W * 9) div 16)"
  unfolding default_height_def by (rule py_int_truediv_floor) simp_all

lemma default_height_defined:
  "\<bar>W * 9\<bar> < 2 ^ 1023 \<Longrightarrow>
     default_height W = Inr (py_int_of_float (fl (of_int (W * 9) / of_int 16)))"
  unfolding default_height_def by (rule py_int_truediv_defined) simp_all

text \<open>
  C5 as stated fails twice. The height is \<^verbatim>\<open>int(W * h / w)\<close>, which truncates:
  width 100 with the token \<open>3:2\<close> gives 66, not round(66.67) = 67. And a token is
  sent to the 16:9 default only when it does not parse or the division raises: the token
  \<open>-16:9\<close> is not two positive integers, yet at width 800 it yields \<open>-450\<close>,
  not the default 450.
\<close>

theorem aspect_token_height_counterexample:
  "resolved_height (calculate_dimensions
      (new_generator (example_config\<lparr>aspect_ratio := ''3:2'', output_width := 100\<rparr>)))
     = Some 66
   \<and> round (100 * 2 / 3 :: rat) = (67 :: int)
   \<and> resolved_height (calculate_dimensions
        (new_generator (example_config\<lparr>aspect_ratio := ''-16:9''\<rparr>))) = Some (- 450)
   \<and> default_height 800 = Inr 450"
proof -
  have a: "py_int_truediv (100 * 2) 3 = Inr ((100 * 2) div 3)"
    by (rule py_int_truediv_floor) simp_all
  have "to_double (of_int (- 450)) = Inr (of_int (- 450))"
    by (rule to_double_of_int) simp
  then have b: "py_int_truediv (800 * 9) (- 16) = Inr (- 450)"
    by (simp add: py_int_truediv_def py_truediv_def py_int_of_float_def)
  have "resolved_height (calculate_dimensions
      (new_generator (example_config\<lparr>aspect_ratio := ''3:2'', output_width := 100\<rparr>)))
     = Some 66"
    using a by (simp add: resolved_height_def calculate_dimensions_def new_generator_def
        example_config_def ratio_height_def ratio_token_def py_int_simps)
  moreover have "round (100 * 2 / 3 :: rat) = (67 :: int)"
    by (simp add: round_rat_numeral)
  moreover have "resolved_height (calculate_dimensions
        (new_generator (example_config\<lparr>aspect_ratio := ''-16:9''\<rparr>))) = Some (- 450)"
    using b by (simp add: resolved_height_def calculate_dimensions_def new_generator_def
        example_config_def ratio_height_def ratio_token_def py_int_simps)
  moreover have "default_height 800 = Inr 450"
    using default_height_floor [of 800] by simp
  ultimately show ?thesis by simp
qed

text \<open>
  C5, amended. Let \<open>W\<close> be the target width, \<open>0 \<le> W\<close> and \<open>9 W + 16 \<le> 2^53\<close>,
  and let the aspect mode be neither \<open>source\<close> nor \<open>custom\<close> with a height.
  A token whose two colon-separated fields Python's \<^verbatim>\<open>int\<close> accepts as \<open>w\<close> and
  \<open>h\<close>, with \<open>0 < w\<close>, \<open>0 \<le> h\<close> and \<open>W h + w \<le> 2^53\<close>, gives the window
  height \<open>(W * h) div w\<close>: the quotient rounded down, not to nearest. A token that does
  not unpack into two such fields, and one whose \<open>w\<close> is 0, give the 16:9 default
  \<open>(W * 9) div 16\<close>; no exception escapes. Two fields without a colon that parse
  always unpack, whatever their sign, and every unpacked pair with \<open>w \<noteq> 0\<close> and
  \<open>\<bar>W h\<bar> < 2^1023\<close> gives \<^verbatim>\<open>int(W * h / w)\<close>, the binary64 quotient truncated
  toward zero: negative ratios are computed, not defaulted.
\<close>

theorem aspect_token_height:
  assumes "aspect_ratio (config g) \<noteq> ''source''"
    and "\<not> (aspect_ratio (config g) = ''custom'' \<and> truthy (output_height (config g)))"
    and "W = output_width (config g)" and "0 \<le> W" and "W * 9 + 16 \<le> 2 ^ 53"
  shows "(\<forall>w h. ratio_token (aspect_ratio (config g)) = Some (w, h)
            \<and> 0 < w \<and> 0 \<le> h \<and> W * h + w \<le> 2 ^ 53 \<longrightarrow>
            calculate_dimensions g = Inr (g\<lparr>window_height := Some ((W * h) div w)\<rparr>))
       \<and> (ratio_token (aspect_ratio (config g)) = None \<longrightarrow>
            calculate_dimensions g = Inr (g\<lparr>window_height := Some ((W * 9) div 16)\<rparr>))
       \<and> (\<forall>h. ratio_token (aspect_ratio (config g)) = Some (0, h) \<longrightarrow>
            calculate_dimensions g = Inr (g\<lparr>window_height := Some ((W * 9) div 16)\<rparr>))
       \<and> (\<forall>tw th w h. CHR '':'' \<notin> set tw \<and> CHR '':'' \<notin> set th
            \<and> py_int tw = Some w \<and> py_int th = Some h \<longrightarrow>
            ratio_token (tw @ '':'' @ th) = Some (w, h))
       \<and> (\<forall>w h. ratio_token (aspect_ratio (config g)) = Some (w, h)
            \<and> w \<noteq> 0 \<and> \<bar>W * h\<bar> < 2 ^ 1023 \<longrightarrow>
            calculate_dimensions g =
              Inr (g\<lparr>window_height :=
                      Some (py_int_of_float (fl (of_int (W * h) / of_int w)))\<rparr>))"
proof -
  note d = default_height_floor [OF assms(4,5)]
  have other: "calculate_dimensions g =
      (case ratio_height W (aspect_ratio (config g)) of
         Inl e \<Rightarrow> Inl e | Inr h \<Rightarrow> Inr (g\<lparr>window_height := Some h\<rparr>))"
    using assms(1,2) by (auto simp add: calculate_dimensions_def Let_def assms(3))
  have 1: "calculate_dimensions g = Inr (g\<lparr>window_height := Some ((W * h) div w)\<rparr>)"
    if "ratio_token (aspect_ratio (config g)) = Some (w, h)" "0 < w" "0 \<le> h"
      "W * h + w \<le> 2 ^ 53" for w h
  proof -
    have "0 \<le> W * h" using assms(4) that(3) by simp
    then have "py_int_truediv (W * h) w = Inr ((W * h) div w)"
      using that(2,4) by (intro py_int_truediv_floor)
    then show ?thesis by (simp add: other ratio_height_def that(1))
  qed
  have 2: "calculate_dimensions g = Inr (g\<lparr>window_height := Some ((W * 9) div 16)\<rparr>)"
    if "ratio_token (aspect_ratio (config g)) = None"
    by (simp add: other ratio_height_def that d)
  have 3: "calculate_dimensions g = Inr (g\<lparr>window_height := Some ((W * 9) div 16)\<rparr>)"
    if "ratio_token (aspect_ratio (config g)) = Some (0, h)" for h
    by (simp add: other ratio_height_def that d py_int_truediv_def py_truediv_def)
  have 4: "calculate_dimensions g =
              Inr (g\<lparr>window_height :=
                      Some (py_int_of_float (fl (of_int (W * h) / of_int w)))\<rparr>)"
    if "ratio_token (aspect_ratio (config g)) = Some (w, h)" "w \<noteq> 0"
      "\<bar>W * h\<bar> < 2 ^ 1023" for w h
    by (simp add: other ratio_height_def that(1) py_int_truediv_defined [OF that(2,3)])
  show ?thesis using 1 2 3 4 ratio_token_parts by blast
qed

theorem aspect_token_height_witness:
  "ratio_token ''4:3'' = Some (4, 3)
   \<and> calculate_dimensions (new_generator (example_config\<lparr>aspect_ratio := ''4:3''\<rparr>))
       = Inr ((new_generator (example_config\<lparr>aspect_ratio := ''4:3''\<rparr>))
                \<lparr>window_height := Some 600\<rparr>)
   \<and> ratio_token ''wide'' = None
   \<and> calculate_dimensions (new_generator (example_config\<lparr>aspect_ratio := ''wide''\<rparr>))
       = Inr ((new_generator (example_config\<lparr>aspect_ratio := ''wide''\<rparr>))
                \<lparr>window_height := Some 450\<rparr>)
   \<and> ratio_token ''-16:9'' = Some (- 16, 9)
   \<and> calculate_dimensions (new_generator (example_config\<lparr>aspect_ratio := ''-16:9''\<rparr>))
       = Inr ((new_generator (example_config\<lparr>aspect_ratio := ''-16:9''\<rparr>))
                \<lparr>window_height := Some (- 450)\<rparr>)"
proof -
  let ?a = "new_generator (example_config\<lparr>aspect_ratio := ''4:3''\<rparr>)"
  let ?b = "new_generator (example_config\<lparr>aspect_ratio := ''wide''\<rparr>)"
  let ?n = "new_generator (example_config\<lparr>aspect_ratio := ''-16:9''\<rparr>)"
  have ta: "ratio_token (aspect_ratio (config ?a)) = Some (4, 3)"
    and tb: "ratio_token (aspect_ratio (config ?b)) = None"
    and tn: "ratio_token (aspect_ratio (config ?n)) = Some (- 16, 9)"
    by (simp_all add: new_generator_def example_config_def ratio_token_def py_int_simps)
  have ha: "aspect_ratio (config ?a) \<noteq> ''source''"
    "\<not> (aspect_ratio (config ?a) = ''custom'' \<and> truthy (output_height (config ?a)))"
    "(800::int) = output_width (config ?a)"
    and hb: "aspect_ratio (config ?b) \<noteq> ''source''"
    "\<not> (aspect_ratio (config ?b) = ''custom'' \<and> truthy (output_height (config ?b)))"
    "(800::int) = output_width (config ?b)"
    and hn: "aspect_ratio (config ?n) \<noteq> ''source''"
    "\<not> (aspect_ratio (config ?n) = ''custom'' \<and> truthy (output_height (config ?n)))"
    "(800::int) = output_width (config ?n)"
    and hw: "(0::int) \<le> 800" "(800::int) * 9 + 16 \<le> 2 ^ 53"
    by (simp_all add: new_generator_def example_config_def)
  from aspect_token_height [OF ha hw, THEN conjunct1, rule_format, of 4 3] ta
  have a: "calculate_dimensions ?a = Inr (?a\<lparr>window_height := Some 600\<rparr>)" by simp
  from aspect_token_height [OF hb hw, THEN conjunct2, THEN conjunct1] tb
  have b: "calculate_dimensions ?b = Inr (?b\<lparr>window_height := Some 450\<rparr>)" by simp
  have "fl (of_int (- 450)) = of_int (- 450)" by (rule fl_of_int) simp
  then have f: "py_int_of_float (fl (- 450)) = - 450" by (simp add: py_int_of_float_def)
  have hn4: "ratio_token (aspect_ratio (config ?n)) = Some (- 16, 9)
      \<and> (- 16 :: int) \<noteq> 0 \<and> \<bar>(800::int) * 9\<bar> < 2 ^ 1023"
    using tn by simp
  from aspect_token_height [OF hn hw, THEN conjunct2, THEN conjunct2, THEN conjunct2,
      THEN conjunct2, rule_format, OF hn4]
  have n: "calculate_dimensions ?n = Inr (?n\<lparr>window_height := Some (- 450)\<rparr>)"
    by (simp add: f)
  show ?thesis using a b n ta tb tn by (simp add: new_generator_def example_config_def)
qed

text \<open>
  C10. With the aspect mode \<open>custom\<close> and no output height, the resolver neither
  fails nor reports anything: \<open>custom\<close> falls to the token branch, \<^verbatim>\<open>int('custom')\<close>
  raises, and the handler stores the 16:9 default \<^verbatim>\<open>int(W * 9 / 16)\<close>, for every
  width \<open>W\<close> whose product \<open>9 W\<close> is below \<open>2^1023\<close> in absolute value (beyond
  that the division in the handler overflows); it is \<open>(W * 9) div 16\<close> when
  \<open>0 \<le> W\<close> and \<open>9 W + 16 \<le> 2^53\<close>.
\<close>

theorem custom_without_height_defaults:
  assumes "aspect_ratio (config g) = ''custom''" and "output_height (config g) = None"
    and "W = output_width (config g)" and "\<bar>W * 9\<bar> < 2 ^ 1023"
  shows "py_int ''custom'' = None
       \<and> calculate_dimensions g =
           Inr (g\<lparr>window_height := Some (py_int_of_float (fl (of_int (W * 9) / of_int 16)))\<rparr>)
       \<and> (0 \<le> W \<and> W * 9 + 16 \<le> 2 ^ 53 \<longrightarrow>
            calculate_dimensions g = Inr (g\<lparr>window_height := Some ((W * 9) div 16)\<rparr>))"
proof -
  have c: "calculate_dimensions g =
      (case default_height W of Inl e \<Rightarrow> Inl e | Inr h \<Rightarrow> Inr (g\<lparr>window_height := Some h\<rparr>))"
    by (simp add: calculate_dimensions_def Let_def assms(1,2) assms(3) [symmetric] truthy_def
        ratio_height_def ratio_token_custom)
  have "calculate_dimensions g =
           Inr (g\<lparr>window_height := Some (py_int_of_float (fl (of_int (W * 9) / of_int 16)))\<rparr>)"
    by (simp add: c default_height_defined [OF assms(4)])
  moreover have "calculate_dimensions g = Inr (g\<lparr>window_height := Some ((W * 9) div 16)\<rparr>)"
    if "0 \<le> W" "W * 9 + 16 \<le> 2 ^ 53"
    by (simp add: c default_height_floor [OF that])
  ultimately show ?thesis using py_int_custom by blast
qed

theorem custom_without_height_defaults_witness:
  "calculate_dimensions (new_generator (example_config\<lparr>aspect_ratio := ''custom''\<rparr>))
     = Inr ((new_generator (example_config\<lparr>aspect_ratio := ''custom''\<rparr>))
              \<lparr>window_height := Some 450\<rparr>)"
proof -
  let ?g = "new_generator (example_config\<lparr>aspect_ratio := ''custom''\<rparr>)"
  have h: "aspect_ratio (config ?g) = ''custom''" "output_height (config ?g) = None"
    "(800::int) = output_width (config ?g)" "\<bar>(800::int) * 9\<bar> < 2 ^ 1023"
    by (simp_all add: new_generator_def example_config_def)
  from custom_without_height_defaults [OF h, THEN conjunct2, THEN conjunct2]
  show ?thesis by simp
qed

section \<open>Claims about the image preprocessor\<close>

lemma to_double_three_quarters: "to_double (3 / 4) = Inr (3 / 4)"
  using to_double_dyadic [of 3 2] by simp

text \<open>
  C6 as stated fails: the new size is \<^verbatim>\<open>int(size * scale)\<close>, which truncates. An
  800 x 3001 picture at width 800 and quality 0.75 has scale 0.75; the new height is
  int(2250.75) = 2250, not round(2250.75) = 2251. (The new width 600 differs from 800, so
  the window height 450 becomes int(450 * 0.75) = 337 and the width 600.)
\<close>

theorem preprocess_rounding_counterexample:
  "preprocess_image
     \<lparr>config = example_config\<lparr>quality_factor := 3 / 4\<rparr>,
      source_img = Some \<lparr>img_width = 800, img_height = 3001\<rparr>,
      scaled_image = None, window_height = Some 450, frames = []\<rparr>
   = Inr \<lparr>config = example_config\<lparr>quality_factor := 3 / 4, output_width := 600\<rparr>,
          source_img = Some \<lparr>img_width = 800, img_height = 3001\<rparr>,
          scaled_image = Some \<lparr>img_width = 600, img_height = 2250\<rparr>,
          window_height = Some 337, frames = []\<rparr>
   \<and> round (3001 * (800 / 800 * (3 / 4)) :: rat) = (2251 :: int)"
proof -
  have a: "to_double (9003 / 4) = Inr (9003 / 4)" using to_double_dyadic [of 9003 2] by simp
  have b: "to_double (675 / 2) = Inr (675 / 2)" using to_double_dyadic [of 675 1] by simp
  have "round (3001 * (800 / 800 * (3 / 4)) :: rat) = (2251 :: int)"
    by (simp add: round_rat_numeral)
  then show ?thesis
    by (simp add: preprocess_image_def example_config_def py_truediv_def py_fmul_def
        scaled_size_def py_imul_def to_double_numeral to_double_one to_double_three_quarters
        a b py_int_of_float_def floor_rat_numeral resize_def reconcile_window_def)
qed

text \<open>
  C6, amended. \<^verbatim>\<open>preprocess_image\<close> computes, in binary64 arithmetic,
  \<open>scale = (targetWidth / sourceWidth) * qualityFactor\<close> and resamples to
  \<open>newWidth = int(sourceWidth * scale)\<close>, \<open>newHeight = int(sourceHeight * scale)\<close>,
  truncated toward zero (both at least 1, or the resampling is refused). It then
  reconciles the window: when \<open>newWidth \<noteq> targetWidth\<close> the window height becomes
  \<open>int(windowHeight * (newWidth / targetWidth))\<close> and the width \<open>newWidth\<close>,
  otherwise nothing changes. The pipeline runs this stage once, between
  \<^verbatim>\<open>calculate_dimensions\<close> and \<^verbatim>\<open>generate_frames\<close>, and the frames are cut
  from the state it returns.
\<close>

theorem preprocess_image_scaling:
  "(\<forall>g src scale_ratio final_scale fw fh.
      source_img g = Some src
      \<and> py_truediv (output_width (config g)) (img_width src) = Inr scale_ratio
      \<and> py_fmul scale_ratio (quality_factor (config g)) = Inr final_scale
      \<and> py_imul (img_width src) final_scale = Inr fw
      \<and> py_imul (img_height src) final_scale = Inr fh
      \<and> 1 \<le> py_int_of_float fw \<and> 1 \<le> py_int_of_float fh \<longrightarrow>
      preprocess_image g =
        reconcile_window
          (g\<lparr>scaled_image := Some \<lparr>img_width = py_int_of_float fw,
                                    img_height = py_int_of_float fh\<rparr>\<rparr>)
          (py_int_of_float fw))
   \<and> (\<forall>g new_width wh scale_window fwh.
        new_width \<noteq> output_width (config g) \<and> window_height g = Some wh
        \<and> py_truediv new_width (output_width (config g)) = Inr scale_window
        \<and> py_imul wh scale_window = Inr fwh \<longrightarrow>
        reconcile_window g new_width =
          Inr (g\<lparr>window_height := Some (py_int_of_float fwh),
                 config := (config g)\<lparr>output_width := new_width\<rparr>\<rparr>))
   \<and> (\<forall>g. reconcile_window g (output_width (config g)) = Inr g)
   \<and> (\<forall>files c g1 g2 g3.
        load_image files (new_generator c) = Inr g1 \<and> calculate_dimensions g1 = Inr g2
        \<and> preprocess_image g2 = Inr g3 \<longrightarrow>
        schedule files c = generate_frames g3)"
proof -
  have 1: "preprocess_image g =
        reconcile_window
          (g\<lparr>scaled_image := Some \<lparr>img_width = py_int_of_float fw,
                                    img_height = py_int_of_float fh\<rparr>\<rparr>)
          (py_int_of_float fw)"
    if "source_img g = Some src"
      "py_truediv (output_width (config g)) (img_width src) = Inr scale_ratio"
      "py_fmul scale_ratio (quality_factor (config g)) = Inr final_scale"
      "py_imul (img_width src) final_scale = Inr fw"
      "py_imul (img_height src) final_scale = Inr fh"
      "1 \<le> py_int_of_float fw" "1 \<le> py_int_of_float fh"
    for g src scale_ratio final_scale fw fh
    using that(6,7) by (simp add: preprocess_image_def that(1-5) scaled_size_def resize_def)
  have 2: "reconcile_window g new_width =
          Inr (g\<lparr>window_height := Some (py_int_of_float fwh),
                 config := (config g)\<lparr>output_width := new_width\<rparr>\<rparr>)"
    if "new_width \<noteq> output_width (config g)" "window_height g = Some wh"
      "py_truediv new_width (output_width (config g)) = Inr scale_window"
      "py_imul wh scale_window = Inr fwh"
    for g new_width wh scale_window fwh
    using that(1) by (simp add: reconcile_window_def that(2-4) scaled_size_def)
  have 3: "reconcile_window g (output_width (config g)) = Inr g" for g
    by (simp add: reconcile_window_def)
  have 4: "schedule files c = generate_frames g3"
    if "load_image files (new_generator c) = Inr g1" "calculate_dimensions g1 = Inr g2"
      "preprocess_image g2 = Inr g3" for files c g1 g2 g3
    by (simp add: schedule_def that)
  show ?thesis using 1 2 3 4 by blast
qed

theorem preprocess_image_scaling_witness:
  "py_truediv 800 800 = Inr 1 \<and> py_fmul 1 (3 / 4) = Inr (3 / 4)
   \<and> py_imul 800 (3 / 4) = Inr 600 \<and> py_imul 3001 (3 / 4) = Inr (9003 / 4)
   \<and> py_int_of_float 600 = 600 \<and> py_int_of_float (9003 / 4) = 2250
   \<and> preprocess_image
        \<lparr>config = example_config\<lparr>quality_factor := 3 / 4\<rparr>,
         source_img = Some \<lparr>img_width = 800, img_height = 3001\<rparr>,
         scaled_image = None, window_height = Some 450, frames = []\<rparr>
      = reconcile_window
          \<lparr>config = example_config\<lparr>quality_factor := 3 / 4\<rparr>,
           source_img = Some \<lparr>img_width = 800, img_height = 3001\<rparr>,
           scaled_image = Some \<lparr>img_width = 600, img_height = 2250\<rparr>,
           window_height = Some 450, frames = []\<rparr> 600"
proof -
  let ?g = "\<lparr>config = example_config\<lparr>quality_factor := 3 / 4\<rparr>,
         source_img = Some \<lparr>img_width = 800, img_height = 3001\<rparr>,
         scaled_image = None, window_height = Some 450, frames = []\<rparr>"
  let ?src = "\<lparr>img_width = 800, img_height = 3001\<rparr>"
  have a: "to_double (9003 / 4) = Inr (9003 / 4)" using to_double_dyadic [of 9003 2] by simp
  have e1: "py_truediv 800 800 = Inr 1"
    by (simp add: py_truediv_def to_double_one)
  have e2: "py_fmul 1 (3 / 4) = Inr (3 / 4)"
    by (simp add: py_fmul_def to_double_three_quarters)
  have e3: "py_imul 800 (3 / 4) = Inr 600"
    by (simp add: py_imul_def py_fmul_def to_double_numeral)
  have e4: "py_imul 3001 (3 / 4) = Inr (9003 / 4)"
    by (simp add: py_imul_def py_fmul_def to_double_numeral a)
  have e5: "py_int_of_float 600 = 600" and e6: "py_int_of_float (9003 / 4) = 2250"
    by (simp_all add: py_int_of_float_def floor_rat_numeral)
  have h: "source_img ?g = Some ?src
      \<and> py_truediv (output_width (config ?g)) (img_width ?src) = Inr 1
      \<and> py_fmul 1 (quality_factor (config ?g)) = Inr (3 / 4)
      \<and> py_imul (img_width ?src) (3 / 4) = Inr 600
      \<and> py_imul (img_height ?src) (3 / 4) = Inr (9003 / 4)
      \<and> 1 \<le> py_int_of_float 600 \<and> 1 \<le> py_int_of_float (9003 / 4)"
    by (simp add: example_config_def e1 e2 e3 e4 e5 e6)
  from preprocess_image_scaling [THEN conjunct1, rule_format, OF h]
  show ?thesis by (simp add: e1 e2 e3 e4 e5 e6)
qed

section \<open>Claims about the output encoder\<close>

lemma duration_ms_positive:
  "0 < framerate c \<Longrightarrow> duration_ms c = Inr (1000 div framerate c)"
  unfolding duration_ms_def by (rule int_1000_truediv)

lemma duration_ms_defined:
  "framerate c \<noteq> 0 \<Longrightarrow>
     duration_ms c = Inr (py_int_of_float (fl (of_int 1000 / of_int (framerate c))))"
  unfolding duration_ms_def by (rule py_int_truediv_defined) simp_all

lemma py_int_truediv_error:
  "py_int_truediv a b = Inl e \<Longrightarrow> e = ZeroDivisionError \<or> e = OverflowError"
  by (auto simp: py_int_truediv_def py_truediv_def to_double_def Let_def
      split: if_splits sum.splits)

lemma save_as_gif_nonempty:
  "frames g \<noteq> [] \<Longrightarrow>
     save_as_gif g d = Inr (g, output_path (config g), Gif (frames g) d (loop_count (config g)))"
  by (cases "frames g") (simp_all add: save_as_gif_def)

lemma py_upper_examples:
  "py_upper ''GIF'' = ''GIF''" "py_upper ''gif'' = ''GIF''" "py_upper ''MP4'' = ''MP4''"
  "py_upper ''WEBM'' = ''WEBM''"
  by (simp_all add: py_upper_def upper_char_def)

text \<open>
  C7 as stated fails: the frame duration is \<^verbatim>\<open>int(1000 / framerate)\<close>, which
  truncates. At the default 24 frames per second it is 41 ms, not round(41.67) = 42.
\<close>

theorem gif_duration_counterexample:
  "duration_ms example_config = Inr 41 \<and> round (1000 / 24 :: rat) = (42 :: int)"
proof -
  have "duration_ms example_config = Inr (1000 div 24)"
    using duration_ms_positive [of example_config] by (simp add: example_config_def)
  moreover have "round (1000 / 24 :: rat) = (42 :: int)" by (simp add: round_rat_numeral)
  ultimately show ?thesis by simp
qed

text \<open>
  C7, amended. With at least one frame, the GIF format and a positive frame rate,
  \<^verbatim>\<open>save_output\<close> writes to the output path an animated image of all the frames, each
  shown for \<open>1000 div framerate\<close> milliseconds (\<^verbatim>\<open>int(1000 / framerate)\<close>, rounded
  down), with loop value 1 (play once) in the mode \<open>down-once\<close> and 0 (repeat forever)
  in every other mode.
\<close>

theorem gif_duration_and_loop:
  assumes "frames g \<noteq> []" and "py_upper (output_format (config g)) = ''GIF''"
    and "0 < framerate (config g)"
  shows "save_output moviepy g =
           Inr (g, output_path (config g),
                Gif (frames g) (1000 div framerate (config g))
                    (if scroll_mode (config g) = ''down-once'' then 1 else 0))"
  using assms(1)
  by (simp add: save_output_def duration_ms_positive [OF assms(3)] assms(2)
      save_as_gif_nonempty loop_count_def)

theorem gif_duration_and_loop_witness:
  "save_output False
     ((example_generator example_config 3000)
        \<lparr>frames := [example_frame]\<rparr>)
   = Inr ((example_generator example_config 3000)
            \<lparr>frames := [example_frame]\<rparr>,
          ''output_scroll.gif'',
          Gif [example_frame] 41 0)"
proof -
  let ?g = "(example_generator example_config 3000)
        \<lparr>frames := [example_frame]\<rparr>"
  have h: "frames ?g \<noteq> []" "py_upper (output_format (config ?g)) = ''GIF''"
    "0 < framerate (config ?g)"
    by (simp_all add: example_generator_def example_config_def py_upper_examples)
  from gif_duration_and_loop [OF h, of False]
  show ?thesis by (simp add: example_generator_def example_config_def)
qed

text \<open>
  C8. \<^verbatim>\<open>save_output\<close> fails with NoFrames exactly when the frame list is empty: the
  check comes first, before the duration is computed and before either writer is called,
  so nothing is written. With at least one frame and a frame rate other than 0 (the
  configuration requires it positive), a format whose upper case is neither \<open>GIF\<close> nor
  \<open>MP4\<close> fails with UnsupportedFormat, again before any writer is called.
\<close>

theorem save_output_fatal_errors:
  "(save_output moviepy g = Inl NoFrames \<longleftrightarrow> frames g = [])
   \<and> (frames g \<noteq> [] \<and> framerate (config g) \<noteq> 0
        \<and> py_upper (output_format (config g)) \<noteq> ''GIF''
        \<and> py_upper (output_format (config g)) \<noteq> ''MP4'' \<longrightarrow>
        save_output moviepy g = Inl (UnsupportedFormat (output_format (config g))))"
proof -
  have 1: "save_output moviepy g = Inl NoFrames" if "frames g = []"
    using that by (simp add: save_output_def)
  have 2: "frames g = []" if e: "save_output moviepy g = Inl NoFrames"
  proof (rule ccontr)
    assume ne: "frames g \<noteq> []"
    let ?g' = "g\<lparr>config := (config g)
                 \<lparr>output_path := fst (splitext (output_path (config g))) @ ''.gif''\<rparr>\<rparr>"
    have ne': "frames ?g' \<noteq> []" using ne by simp
    have d: "duration_ms c \<noteq> Inl NoFrames" for c
      using py_int_truediv_error [of 1000 "framerate c" NoFrames]
      by (auto simp: duration_ms_def)
    have g: "save_as_gif g x \<noteq> Inl NoFrames" for x
      by (simp add: save_as_gif_nonempty [OF ne])
    have g': "save_as_gif ?g' x \<noteq> Inl NoFrames" for x
      by (simp add: save_as_gif_nonempty [OF ne'])
    have m: "save_as_mp4 moviepy g \<noteq> Inl NoFrames"
      using d [of "config ?g'"] g'
      by (auto simp: save_as_mp4_def Let_def split: sum.splits)
    show False
      using e ne d [of "config g"] g m
      by (auto simp: save_output_def split: sum.splits if_splits)
  qed
  have 3: "save_output moviepy g = Inl (UnsupportedFormat (output_format (config g)))"
    if "frames g \<noteq> []" "framerate (config g) \<noteq> 0"
      "py_upper (output_format (config g)) \<noteq> ''GIF''"
      "py_upper (output_format (config g)) \<noteq> ''MP4''"
    using that(1,3,4) by (simp add: save_output_def duration_ms_defined [OF that(2)])
  show ?thesis using 1 2 3 by blast
qed

theorem save_output_fatal_errors_witness:
  "save_output True (example_generator example_config 3000) = Inl NoFrames
   \<and> save_output True
        ((example_generator (example_config\<lparr>output_format := ''WEBM''\<rparr>) 3000)
           \<lparr>frames := [example_frame]\<rparr>)
      = Inl (UnsupportedFormat ''WEBM'')"
proof -
  let ?e = "example_generator example_config 3000"
  let ?g = "(example_generator (example_config\<lparr>output_format := ''WEBM''\<rparr>) 3000)
           \<lparr>frames := [example_frame]\<rparr>"
  have e: "frames ?e = []" by (simp add: example_generator_def)
  have h: "frames ?g \<noteq> [] \<and> framerate (config ?g) \<noteq> 0
        \<and> py_upper (output_format (config ?g)) \<noteq> ''GIF''
        \<and> py_upper (output_format (config ?g)) \<noteq> ''MP4''"
    by (simp add: example_generator_def example_config_def py_upper_examples)
  have "save_output True ?e = Inl NoFrames"
    using save_output_fatal_errors [of True ?e, THEN conjunct1] e by simp
  moreover have "save_output True ?g = Inl (UnsupportedFormat ''WEBM'')"
    using save_output_fatal_errors [of True ?g, THEN conjunct2, rule_format, OF h]
    by (simp add: example_generator_def example_config_def)
  ultimately show ?thesis by simp
qed

text \<open>
  C9. With at least one frame, the MP4 format, a positive frame rate and no video
  encoder (\<^verbatim>\<open>moviepy\<close> or \<^verbatim>\<open>numpy\<close> cannot be imported), \<^verbatim>\<open>save_output\<close> does
  not fail: it replaces the configured output path by \<^verbatim>\<open>os.path.splitext(path)[0]\<close>
  followed by \<open>.gif\<close> and writes the animated image there, with the duration and loop
  value of the GIF path; a run whose scheduler returned frames then reports success.
\<close>

theorem mp4_falls_back_to_gif:
  assumes "frames g \<noteq> []" and "py_upper (output_format (config g)) = ''MP4''"
    and "0 < framerate (config g)"
    and "new_path = fst (splitext (output_path (config g))) @ ''.gif''"
  shows "save_output False g =
           Inr (g\<lparr>config := (config g)\<lparr>output_path := new_path\<rparr>\<rparr>, new_path,
                Gif (frames g) (1000 div framerate (config g))
                    (if scroll_mode (config g) = ''down-once'' then 1 else 0))
       \<and> (\<forall>files c. schedule files c = Some (Inr g) \<longrightarrow> run files False c = Some True)"
proof -
  let ?g' = "g\<lparr>config := (config g)\<lparr>output_path := new_path\<rparr>\<rparr>"
  have ne': "frames ?g' \<noteq> []" using assms(1) by simp
  have d': "duration_ms (config ?g') = Inr (1000 div framerate (config g))"
    using duration_ms_positive [of "config ?g'"] assms(3) by simp
  have ng: "py_upper (output_format (config g)) \<noteq> ''GIF''" by (simp add: assms(2))
  have s: "save_output False g =
           Inr (?g', new_path,
                Gif (frames g) (1000 div framerate (config g))
                    (if scroll_mode (config g) = ''down-once'' then 1 else 0))"
    using assms(1) save_as_gif_nonempty [OF ne'] d'
    by (simp add: save_output_def duration_ms_positive [OF assms(3)] assms(2)
        save_as_mp4_def Let_def assms(4) [symmetric] loop_count_def)
  have "run files False c = Some True" if "schedule files c = Some (Inr g)" for files c
    by (simp add: run_def that s)
  then show ?thesis using s by blast
qed

theorem mp4_falls_back_to_gif_witness:
  "splitext ''clips/video.mp4'' = (''clips/video'', ''.mp4'')
   \<and> save_output False
        ((example_generator
            (example_config\<lparr>output_format := ''MP4'', output_path := ''clips/video.mp4''\<rparr>)
            3000)
           \<lparr>frames := [example_frame]\<rparr>)
      = Inr ((example_generator
                (example_config\<lparr>output_format := ''MP4'', output_path := ''clips/video.gif''\<rparr>)
                3000)
               \<lparr>frames := [example_frame]\<rparr>,
             ''clips/video.gif'',
             Gif [example_frame] 41 0)"
proof -
  let ?g = "(example_generator
            (example_config\<lparr>output_format := ''MP4'', output_path := ''clips/video.mp4''\<rparr>)
            3000)
           \<lparr>frames := [example_frame]\<rparr>"
  have sp: "splitext ''clips/video.mp4'' = (''clips/video'', ''.mp4'')"
    by (simp add: splitext_def rfind_def)
  have h: "frames ?g \<noteq> []" "py_upper (output_format (config ?g)) = ''MP4''"
    "0 < framerate (config ?g)"
    "''clips/video.gif'' = fst (splitext (output_path (config ?g))) @ ''.gif''"
    by (simp_all add: example_generator_def example_config_def py_upper_examples sp)
  from mp4_falls_back_to_gif [OF h, THEN conjunct1]
  show ?thesis by (simp add: example_generator_def example_config_def sp)
qed

end
